theory Spec2Isabelle
  imports Complex_Main "HOL-Library.AList" "HOL-Library.Char_ord" "HOL-Library.List_Lexorder"
    "HOL-Library.Multiset"
begin

section \<open>Python strings\<close>

text \<open>
  The board database of \<^verbatim>\<open>tools/buildman/boards.py\<close> is text: every function of the
  module cuts, joins and compares Python strings. A Python string is modelled as a
  \<^typ>\<open>string\<close>, each \<^typ>\<open>char\<close> standing for one code point below 256. The functions
  of this section are the methods of \<^verbatim>\<open>str\<close> and of \<^verbatim>\<open>os.path\<close> that the module calls,
  on that range.
\<close>

datatype error =
    AssertionError
  | AttributeError
  | IndexError
  | KeyError
  | UnboundLocalError
  | ReError
  | OSError_ENOENT
  | OSError_other

text \<open>The characters for which \<^verbatim>\<open>str.isspace\<close> holds, among the code points below 256.\<close>

definition whitespace_chars :: "char list" where
  "whitespace_chars =
     [CHR 0x09, CHR 0x0A, CHR 0x0B, CHR 0x0C, CHR 0x0D, CHR 0x1C, CHR 0x1D, CHR 0x1E,
      CHR 0x1F, CHR 0x20, CHR 0x85, CHR 0xA0]"

definition py_isspace :: "char \<Rightarrow> bool" where
  "py_isspace c = (c \<in> set whitespace_chars)"

text \<open>
  \<^verbatim>\<open>s.split()\<close>: the maximal runs of characters that are not whitespace. The first
  argument is the run read so far.
\<close>

fun split_run :: "string \<Rightarrow> string \<Rightarrow> string list" where
  "split_run cur [] = (if cur = [] then [] else [cur])"
| "split_run cur (c # cs) =
     (if py_isspace c then (if cur = [] then split_run [] cs else cur # split_run [] cs)
      else split_run (cur @ [c]) cs)"

definition py_split :: "string \<Rightarrow> string list" where
  "py_split s = split_run [] s"

text \<open>\<^verbatim>\<open>s.split(sep)\<close> for a separator of one character: one more piece than separators.\<close>

fun split_sep_run :: "char \<Rightarrow> string \<Rightarrow> string \<Rightarrow> string list" where
  "split_sep_run sep cur [] = [cur]"
| "split_sep_run sep cur (c # cs) =
     (if c = sep then cur # split_sep_run sep [] cs else split_sep_run sep (cur @ [c]) cs)"

definition split_sep :: "char \<Rightarrow> string \<Rightarrow> string list" where
  "split_sep sep s = split_sep_run sep [] s"

definition py_lstrip :: "string \<Rightarrow> string" where
  "py_lstrip s = dropWhile py_isspace s"

definition py_rstrip :: "string \<Rightarrow> string" where
  "py_rstrip s = rev (dropWhile py_isspace (rev s))"

definition py_strip :: "string \<Rightarrow> string" where
  "py_strip s = py_rstrip (py_lstrip s)"

definition startswith :: "string \<Rightarrow> string \<Rightarrow> bool" where
  "startswith s p = (take (length p) s = p)"

definition endswith :: "string \<Rightarrow> string \<Rightarrow> bool" where
  "endswith s p = (length p \<le> length s \<and> drop (length s - length p) s = p)"

text \<open>\<^verbatim>\<open>sub in s\<close> on strings.\<close>

fun contains :: "string \<Rightarrow> string \<Rightarrow> bool" where
  "contains [] sub = (sub = [])"
| "contains (c # cs) sub = (startswith (c # cs) sub \<or> contains cs sub)"

text \<open>\<^verbatim>\<open>sep.join(xs)\<close>.\<close>

fun join :: "string \<Rightarrow> string list \<Rightarrow> string" where
  "join sep [] = []"
| "join sep [x] = x"
| "join sep (x # y # ys) = x @ sep @ join sep (y # ys)"

text \<open>
  \<^verbatim>\<open>s.partition(sep)\<close> cuts at the first occurrence of \<open>sep\<close> and gives
  \<open>(s, '', '')\<close> when there is none. The first argument is the text already passed.
\<close>

fun partition_from :: "string \<Rightarrow> string \<Rightarrow> string \<Rightarrow> string \<times> string \<times> string" where
  "partition_from front [] sep = (if sep = [] then (front, sep, []) else (front, [], []))"
| "partition_from front (c # cs) sep =
     (if startswith (c # cs) sep then (front, sep, drop (length sep) (c # cs))
      else partition_from (front @ [c]) cs sep)"

definition py_partition :: "string \<Rightarrow> string \<Rightarrow> string \<times> string \<times> string" where
  "py_partition s sep = partition_from [] s sep"

text \<open>
  \<^verbatim>\<open>s.rpartition(sep)\<close> cuts at the last occurrence of \<open>sep\<close> and gives
  \<open>('', '', s)\<close> when there is none: the first occurrence in the reversed string.
\<close>

definition py_rpartition :: "string \<Rightarrow> string \<Rightarrow> string \<times> string \<times> string" where
  "py_rpartition s sep =
     (case py_partition (rev s) (rev sep) of
        (rear, m, front) \<Rightarrow>
          if m = [] then ([], [], s) else (rev front, sep, rev rear))"

text \<open>\<^verbatim>\<open>s.ljust(width)\<close> pads with spaces on the right and never cuts.\<close>

definition ljust :: "nat \<Rightarrow> string \<Rightarrow> string" where
  "ljust width s = s @ replicate (width - length s) CHR '' ''"

text \<open>
  \<^verbatim>\<open>str.lower\<close> on one code point below 256: the capital letters are A to Z and
  0xC0 to 0xDE without the multiplication sign 0xD7, each 32 below its small letter.
\<close>

definition lower_char :: "char \<Rightarrow> char" where
  "lower_char c =
     (let n = (of_char c :: nat)
      in if (65 \<le> n \<and> n \<le> 90) \<or> (192 \<le> n \<and> n \<le> 222 \<and> n \<noteq> 215) then char_of (n + 32)
         else c)"

definition py_lower :: "string \<Rightarrow> string" where
  "py_lower s = map lower_char s"

text \<open>\<^verbatim>\<open>s.replace(a, b)\<close> for \<open>a\<close> and \<open>b\<close> of one character.\<close>

definition replace_char :: "char \<Rightarrow> char \<Rightarrow> string \<Rightarrow> string" where
  "replace_char a b s = map (\<lambda>c. if c = a then b else c) s"

text \<open>\<^verbatim>\<open>os.path.join(a, b)\<close> and \<^verbatim>\<open>os.path.basename(p)\<close> of \<^verbatim>\<open>posixpath\<close>.\<close>

definition path_join :: "string \<Rightarrow> string \<Rightarrow> string" where
  "path_join a b =
     (if startswith b ''/'' then b
      else if a = [] \<or> endswith a ''/'' then a @ b
      else a @ ''/'' @ b)"

definition basename :: "string \<Rightarrow> string" where
  "basename p = rev (takeWhile (\<lambda>c. c \<noteq> CHR ''/'') (rev p))"

text \<open>
  A text file opened for reading translates \<^verbatim>\<open>\r\n\<close> and a lone \<^verbatim>\<open>\r\<close> to
  \<^verbatim>\<open>\n\<close>; iterating over it gives the lines, each with its \<^verbatim>\<open>\n\<close>, the last one
  without when the text does not end in one.
\<close>

fun universal_newlines :: "string \<Rightarrow> string" where
  "universal_newlines [] = []"
| "universal_newlines [c] = (if c = CHR 0x0D then [CHR 0x0A] else [c])"
| "universal_newlines (c # d # cs) =
     (if c = CHR 0x0D \<and> d = CHR 0x0A then CHR 0x0A # universal_newlines cs
      else if c = CHR 0x0D then CHR 0x0A # universal_newlines (d # cs)
      else c # universal_newlines (d # cs))"

fun lines_run :: "string \<Rightarrow> string \<Rightarrow> string list" where
  "lines_run cur [] = (if cur = [] then [] else [cur])"
| "lines_run cur (c # cs) =
     (if c = CHR 0x0A then (cur @ [c]) # lines_run [] cs else lines_run (cur @ [c]) cs)"

definition file_lines :: "string \<Rightarrow> string list" where
  "file_lines text = lines_run [] (universal_newlines text)"


section \<open>What the module is given: files, regular expressions, the Kconfig evaluator\<close>

text \<open>
  The module reads the file system through \<^verbatim>\<open>os\<close>, \<^verbatim>\<open>glob\<close> and \<^verbatim>\<open>open\<close>. One
  record holds what these calls answer: the creation time of a path (a float, read here
  as the rational it denotes; only compared), the \<open>(dirpath, filenames)\<close> pairs of
  \<^verbatim>\<open>os.walk\<close> in the order they are produced, the paths \<^verbatim>\<open>glob.glob\<close> expands a
  pattern to, whether a path exists, and the decoded text of a file.
\<close>

record os_env =
  getctime :: "string \<Rightarrow> error + rat"
  walk :: "string \<Rightarrow> (string \<times> string list) list"
  glob :: "string \<Rightarrow> string list"
  path_exists :: "string \<Rightarrow> bool"
  open_read :: "string \<Rightarrow> error + string"

text \<open>
  Python's \<^verbatim>\<open>re\<close>: \<open>re_compile p\<close> is \<open>None\<close> when \<^verbatim>\<open>re.compile(p)\<close> raises, else
  the predicate \<^verbatim>\<open>re.compile(p).match(s) is not None\<close>; \<open>re_search p s\<close> is \<open>None\<close>
  when \<^verbatim>\<open>re.search(p, s)\<close> raises, else whether it finds a match.
\<close>

record py_re =
  re_compile :: "string \<Rightarrow> (string \<Rightarrow> bool) option"
  re_search :: "string \<Rightarrow> string \<Rightarrow> bool option"

text \<open>
  The Kconfig evaluator (\<^verbatim>\<open>kconfiglib\<close>): \<open>load_config path\<close> is the table
  \<^verbatim>\<open>self._conf.syms\<close> after loading the defconfig, as the list of its
  \<open>(name, str_value)\<close> items, or the exception the load raised.
\<close>

type_synonym kconf = "string \<Rightarrow> error + (string \<times> string) list"

text \<open>A dict of board parameters: the keys are the column names.\<close>

type_synonym params = "string \<rightharpoonup> string"

definition quoted :: "string \<Rightarrow> string" where
  "quoted s = [CHR 0x27] @ s @ [CHR 0x27]"

section \<open>KconfigScanner\<close>

definition SYMBOL_TABLE :: "(string \<times> string) list" where
  "SYMBOL_TABLE =
     [(''arch'', ''SYS_ARCH''), (''cpu'', ''SYS_CPU''), (''soc'', ''SYS_SOC''),
      (''vendor'', ''SYS_VENDOR''), (''board'', ''SYS_BOARD''),
      (''config'', ''SYS_CONFIG_NAME'')]"

text \<open>
  The loop over \<open>_SYMBOL_TABLE\<close>: \<^verbatim>\<open>syms.get(symbol)\<close> is \<open>None\<close> for a symbol the
  evaluator does not know, and reading \<^verbatim>\<open>.str_value\<close> of it raises.
\<close>

fun get_symbols :: "(string \<times> string) list \<Rightarrow> (string \<times> string) list \<Rightarrow> params \<Rightarrow> error + params" where
  "get_symbols syms [] params = Inr params"
| "get_symbols syms ((key, symbol) # table) params =
     (case map_of syms symbol of
        None \<Rightarrow> Inl AttributeError
      | Some v \<Rightarrow> get_symbols syms table (params(key \<mapsto> (if v \<noteq> [] then v else ''-''))))"

text \<open>
  The check that exactly one \<open>TARGET_xxx\<close> is set. \<open>target\<close> is \<open>None\<close> or the name
  found; \<^verbatim>\<open>if target:\<close> is false for \<open>None\<close> and for the empty name.
\<close>

fun check_targets :: "string \<Rightarrow> (string \<times> string) list \<Rightarrow> string option \<Rightarrow> string list \<Rightarrow> string option \<times> string list" where
  "check_targets leaf [] target warnings = (target, warnings)"
| "check_targets leaf ((name, v) # syms) target warnings =
     (if startswith name ''TARGET_'' \<and> v = ''y'' then
        (let tname = py_lower (drop 7 name)
         in case target of
              Some t \<Rightarrow>
                if t \<noteq> [] then
                  check_targets leaf syms target
                    (warnings @ [''WARNING: '' @ leaf @ '': Duplicate TARGET_xxx: '' @ t @ '' and '' @ tname])
                else check_targets leaf syms (Some tname) warnings
            | None \<Rightarrow> check_targets leaf syms (Some tname) warnings)
      else check_targets leaf syms target warnings)"

text \<open>
  The two fix-ups at the end of \<open>scan\<close>, where the keys \<open>arch\<close> and \<open>cpu\<close> are set.
\<close>

definition fixup_aarch64 :: "params \<Rightarrow> params" where
  "fixup_aarch64 params =
     (if params ''arch'' = Some ''arm'' \<and> params ''cpu'' = Some ''armv8''
      then params(''arch'' \<mapsto> ''aarch64'') else params)"

text \<open>
  \<open>ARCH_RV32I\<close> is read inside \<^verbatim>\<open>try\<close>: an unknown symbol counts as the empty value.
\<close>

definition fixup_riscv :: "(string \<times> string) list \<Rightarrow> params \<Rightarrow> params" where
  "fixup_riscv syms params =
     (if params ''arch'' = Some ''riscv'' then
        (let v = (case map_of syms ''ARCH_RV32I'' of None \<Rightarrow> [] | Some x \<Rightarrow> x)
         in if v = ''y'' then params(''arch'' \<mapsto> ''riscv32'') else params(''arch'' \<mapsto> ''riscv64''))
      else params)"

text \<open>
  \<open>scan\<close>. \<open>str_upper\<close> is \<^verbatim>\<open>str.upper\<close>, which leaves the code points below 256 for
  some characters and is therefore a parameter; it only shapes a warning.
\<close>

definition scan :: "kconf \<Rightarrow> (string \<Rightarrow> string) \<Rightarrow> string \<Rightarrow> bool \<Rightarrow> error + (params \<times> string list)" where
  "scan load_config str_upper defconfig warn_targets =
     (let leaf = basename defconfig
      in case py_partition leaf ''_defconfig'' of
        (expect_target, m, rear) \<Rightarrow>
          if \<not> (m \<noteq> [] \<and> rear = []) then Inl AssertionError
          else
            (case load_config defconfig of
               Inl e \<Rightarrow> Inl e
             | Inr syms \<Rightarrow>
                 (case get_symbols syms SYMBOL_TABLE Map.empty of
                    Inl e \<Rightarrow> Inl e
                  | Inr params \<Rightarrow>
                      (let warnings =
                         (if warn_targets then
                            (case check_targets leaf syms None [] of
                               (target, ws) \<Rightarrow>
                                 if target = None \<or> target = Some [] then
                                   ws @ [''WARNING: '' @ leaf @ '': No TARGET_'' @
                                         str_upper (replace_char CHR ''-'' CHR ''_'' expect_target) @
                                         '' enabled'']
                                 else ws)
                          else []);
                         params1 = params(''target'' \<mapsto> expect_target)
                       in Inr (fixup_riscv syms (fixup_aarch64 params1), warnings)))))"

section \<open>MaintainersDatabase\<close>

record MaintainersDatabase =
  database :: "string \<rightharpoonup> string \<times> string list"
  warnings :: "string list"

definition MaintainersDatabase_init :: MaintainersDatabase where
  "MaintainersDatabase_init = \<lparr>database = Map.empty, warnings = []\<rparr>"

definition warn :: "string \<Rightarrow> MaintainersDatabase \<Rightarrow> MaintainersDatabase" where
  "warn w self = self\<lparr>warnings := warnings self @ [w]\<rparr>"

definition get_status :: "MaintainersDatabase \<Rightarrow> string \<Rightarrow> string \<times> MaintainersDatabase" where
  "get_status self target =
     (case database self target of
        None \<Rightarrow> (''-'', warn (''WARNING: no status info for '' @ quoted target) self)
      | Some (tmp, maint_list) \<Rightarrow>
          if startswith tmp ''Maintained'' then (''Active'', self)
          else if startswith tmp ''Supported'' then (''Active'', self)
          else if startswith tmp ''Orphan'' then (''Orphan'', self)
          else (''-'', warn (''WARNING: '' @ tmp @ '': unknown status for '' @ quoted target) self))"

definition no_maintainers :: "string \<Rightarrow> string" where
  "no_maintainers target = ''WARNING: no maintainers for '' @ quoted target"

definition get_maintainers :: "MaintainersDatabase \<Rightarrow> string \<Rightarrow> string \<times> MaintainersDatabase" where
  "get_maintainers self target =
     (case database self target of
        None \<Rightarrow> ([], warn (no_maintainers target) self)
      | Some (status, maint_list) \<Rightarrow>
          if \<not> startswith status ''Orphan'' \<and>
             (length maint_list > 1 \<or> (case maint_list of [] \<Rightarrow> False | m # ms \<Rightarrow> m \<noteq> ''-''))
          then (join '':'' maint_list, self)
          else ([], warn (no_maintainers target) self))"

text \<open>
  \<open>parse_file\<close> keeps three local variables, \<open>(targets, maintainers, status)\<close>, and
  writes them to \<open>self.database\<close> at each blank line and at the end of the file.
\<close>

type_synonym parse_locals = "string list \<times> string list \<times> string"

definition add_targets :: "parse_locals \<Rightarrow> (string \<rightharpoonup> string \<times> string list) \<Rightarrow> (string \<rightharpoonup> string \<times> string list)" where
  "add_targets locals db =
     (case locals of
        (targets, maintainers, status) \<Rightarrow>
          foldl (\<lambda>d target. d(target \<mapsto> (status, maintainers))) db targets)"

text \<open>The targets an \<open>F:\<close> line appends: the glob is expanded and cut at \<open>configs/\<close>.\<close>

definition glob_targets :: "os_env \<Rightarrow> string \<Rightarrow> string \<Rightarrow> string list" where
  "glob_targets os srcdir rest =
     concat (map
       (\<lambda>item.
          case py_partition item ''configs/'' of
            (front, m, rear) \<Rightarrow>
              (let front1 = (if endswith front ''/'' then butlast front else front)
               in if front1 = srcdir \<and> m \<noteq> [] then
                    (case py_rpartition rear ''_defconfig'' of
                       (front2, m2, rear2) \<Rightarrow> if m2 \<noteq> [] \<and> rear2 = [] then [front2] else [])
                  else []))
       (glob os (path_join srcdir rest)))"

text \<open>
  The targets an \<open>N:\<close> line appends. \<open>walk_paths\<close> lists the files under
  \<open>srcdir/configs\<close>, each path without \<open>srcdir\<close> and the separator after it;
  \<open>re.search\<close> is called only for a file name that ends in \<open>_defconfig\<close>.
\<close>

definition walk_paths :: "os_env \<Rightarrow> string \<Rightarrow> string list" where
  "walk_paths os srcdir =
     concat (map
       (\<lambda>(dirpath, fnames). map (\<lambda>cfg. drop (length srcdir + 1) (path_join dirpath cfg)) fnames)
       (walk os (path_join srcdir ''configs'')))"

fun name_targets :: "py_re \<Rightarrow> string \<Rightarrow> string list \<Rightarrow> error + string list" where
  "name_targets re rest [] = Inr []"
| "name_targets re rest (path # paths) =
     (case py_partition path ''configs/'' of
        (front, m, rear) \<Rightarrow>
          if front \<noteq> [] \<or> m = [] then name_targets re rest paths
          else
            (case py_rpartition rear ''_defconfig'' of
               (front2, m2, rear2) \<Rightarrow>
                 if m2 \<noteq> [] \<and> rear2 = [] then
                   (case re_search re rest front2 of
                      None \<Rightarrow> Inl ReError
                    | Some found \<Rightarrow>
                        (case name_targets re rest paths of
                           Inl e \<Rightarrow> Inl e
                         | Inr ts \<Rightarrow> Inr ((if found then [front2] else []) @ ts)))
                 else name_targets re rest paths))"


definition parse_line :: "py_re \<Rightarrow> os_env \<Rightarrow> string \<Rightarrow> string \<Rightarrow> parse_locals \<times> (string \<rightharpoonup> string \<times> string list) \<Rightarrow> error + parse_locals \<times> (string \<rightharpoonup> string \<times> string list)" where
  "parse_line re os srcdir line0 st =
     (case st of
        ((targets, maintainers, status), db) \<Rightarrow>
          (let line = (if take 3 line0 = ''#M:'' then drop 1 line0 else line0);
               tag = take 2 line;
               rest = py_strip (drop 2 line)
           in if tag = ''M:'' then Inr ((targets, maintainers @ [rest], status), db)
              else if tag = ''F:'' then
                Inr ((targets @ glob_targets os srcdir rest, maintainers, status), db)
              else if tag = ''S:'' then Inr ((targets, maintainers, rest), db)
              else if tag = ''N:'' then
                (case name_targets re rest (walk_paths os srcdir) of
                   Inl e \<Rightarrow> Inl e
                 | Inr ts \<Rightarrow> Inr ((targets @ ts, maintainers, status), db))
              else if line = [CHR 0x0A] then
                Inr (([], [], ''-''), add_targets (targets, maintainers, status) db)
              else Inr st))"

fun parse_lines :: "py_re \<Rightarrow> os_env \<Rightarrow> string \<Rightarrow> string list \<Rightarrow> parse_locals \<times> (string \<rightharpoonup> string \<times> string list) \<Rightarrow> error + parse_locals \<times> (string \<rightharpoonup> string \<times> string list)" where
  "parse_lines re os srcdir [] st = Inr st"
| "parse_lines re os srcdir (line # lines) st =
     (case parse_line re os srcdir line st of
        Inl e \<Rightarrow> Inl e
      | Inr st1 \<Rightarrow> parse_lines re os srcdir lines st1)"

text \<open>
  \<open>parse_file\<close>. After the loop \<^verbatim>\<open>add_targets(linenum)\<close> reads the loop variable, which
  is unbound when the file has no line.
\<close>

definition parse_file :: "py_re \<Rightarrow> os_env \<Rightarrow> string \<Rightarrow> string \<Rightarrow> MaintainersDatabase \<Rightarrow> error + MaintainersDatabase" where
  "parse_file re os srcdir fname self =
     (case open_read os fname of
        Inl e \<Rightarrow> Inl e
      | Inr text \<Rightarrow>
          (case parse_lines re os srcdir (file_lines text) (([], [], ''-''), database self) of
             Inl e \<Rightarrow> Inl e
           | Inr (locals, db) \<Rightarrow>
               if file_lines text = [] then Inl UnboundLocalError
               else Inr (self\<lparr>database := add_targets locals db\<rparr>)))"

section \<open>Boards: the merge with the maintainers\<close>

fun parse_maintainers_files :: "py_re \<Rightarrow> os_env \<Rightarrow> string \<Rightarrow> (string \<times> string list) list \<Rightarrow> MaintainersDatabase \<Rightarrow> error + MaintainersDatabase" where
  "parse_maintainers_files re os srcdir [] db = Inr db"
| "parse_maintainers_files re os srcdir ((dirpath, filenames) # dirs) db =
     (if ''MAINTAINERS'' \<in> set filenames \<and> \<not> contains dirpath ''tools/buildman'' then
        (case parse_file re os srcdir (path_join dirpath ''MAINTAINERS'') db of
           Inl e \<Rightarrow> Inl e
         | Inr db1 \<Rightarrow> parse_maintainers_files re os srcdir dirs db1)
      else parse_maintainers_files re os srcdir dirs db)"

text \<open>
  The second loop of \<open>insert_maintainers_info\<close>: each dict gets its \<open>maintainers\<close> and
  its \<open>status\<close>; \<open>get_status\<close> is called only when the maintainers are not empty.
\<close>

fun insert_loop :: "MaintainersDatabase \<Rightarrow> params list \<Rightarrow> error + params list \<times> MaintainersDatabase" where
  "insert_loop db [] = Inr ([], db)"
| "insert_loop db (params # params_list) =
     (case params ''target'' of
        None \<Rightarrow> Inl KeyError
      | Some target \<Rightarrow>
          (case get_maintainers db target of
             (maintainers, db1) \<Rightarrow>
               (case (if maintainers \<noteq> [] then get_status db1 target else (''-'', db1)) of
                  (status, db2) \<Rightarrow>
                    (case insert_loop db2 params_list of
                       Inl e \<Rightarrow> Inl e
                     | Inr (rest, db3) \<Rightarrow>
                         Inr (params(''maintainers'' \<mapsto> maintainers, ''status'' \<mapsto> status) # rest,
                              db3)))))"

definition insert_maintainers_info :: "py_re \<Rightarrow> os_env \<Rightarrow> string \<Rightarrow> params list \<Rightarrow> error + params list \<times> string list" where
  "insert_maintainers_info re os srcdir params_list =
     (case parse_maintainers_files re os srcdir (walk os srcdir) MaintainersDatabase_init of
        Inl e \<Rightarrow> Inl e
      | Inr db \<Rightarrow>
          (case insert_loop db params_list of
             Inl e \<Rightarrow> Inl e
           | Inr (merged, db1) \<Rightarrow> Inr (merged, sort (warnings db1))))"

section \<open>Expr and Term\<close>

text \<open>An \<open>Expr\<close> keeps its text (\<open>_expr\<close>) and its compiled pattern (\<open>_re\<close>).\<close>

record Expr =
  expr :: string
  re_match :: "string \<Rightarrow> bool"

definition Expr_init :: "py_re \<Rightarrow> string \<Rightarrow> error + Expr" where
  "Expr_init re e =
     (case re_compile re e of
        None \<Rightarrow> Inl ReError
      | Some m \<Rightarrow> Inr \<lparr>expr = e, re_match = m\<rparr>)"

fun Expr_matches :: "Expr \<Rightarrow> string list \<Rightarrow> bool" where
  "Expr_matches e [] = False"
| "Expr_matches e (prop # props) = (if re_match e prop then True else Expr_matches e props)"

record Term =
  expr_list :: "Expr list"
  board_count :: nat

definition Term_init :: Term where
  "Term_init = \<lparr>expr_list = [], board_count = 0\<rparr>"

definition add_expr :: "py_re \<Rightarrow> Term \<Rightarrow> string \<Rightarrow> error + Term" where
  "add_expr re self e =
     (case Expr_init re e of
        Inl err \<Rightarrow> Inl err
      | Inr ex \<Rightarrow> Inr (self\<lparr>expr_list := expr_list self @ [ex]\<rparr>))"

definition Term_str :: "Term \<Rightarrow> string" where
  "Term_str self = join ''&'' (map expr (expr_list self))"

fun all_match :: "Expr list \<Rightarrow> string list \<Rightarrow> bool" where
  "all_match [] props = True"
| "all_match (e # es) props = (if \<not> Expr_matches e props then False else all_match es props)"

definition Term_matches :: "Term \<Rightarrow> string list \<Rightarrow> bool" where
  "Term_matches self props = all_match (expr_list self) props"

section \<open>Boards: selection\<close>

text \<open>
  Modelled from the spec: the class \<open>Board\<close> of \<^verbatim>\<open>buildman/board.py\<close>, which is not
  among the sources. It holds the eight fields of one line of the database, the list of
  properties the expressions are matched against, and the flag \<open>build_it\<close>, the one
  field that selection writes.
\<close>

record Board =
  status :: string
  arch :: string
  cpu :: string
  soc :: string
  vendor :: string
  board_name :: string
  target :: string
  cfg_name :: string
  props :: "string list"
  build_it :: bool

text \<open>
  \<open>_build_terms\<close>. The first loop cuts the arguments into symbols; the second one
  builds the terms, \<open>term\<close> being the term under construction (\<open>None\<close> at first) and
  \<open>oper\<close> whether the last symbol was \<open>&\<close>. An \<open>&\<close> before any expression calls
  \<open>add_expr\<close> on \<open>None\<close>.
\<close>

definition word_syms :: "string \<Rightarrow> string list" where
  "word_syms word =
     butlast (concat (map (\<lambda>t. (if t \<noteq> [] then [t] else []) @ [''&'']) (split_sep CHR ''&'' word)))"

definition arg_syms :: "string list \<Rightarrow> string list" where
  "arg_syms args = concat (map (\<lambda>arg. concat (map word_syms (py_split arg))) args)"

fun terms_loop :: "py_re \<Rightarrow> string list \<Rightarrow> Term list \<Rightarrow> Term option \<Rightarrow> bool \<Rightarrow> error + Term list \<times> Term option" where
  "terms_loop re [] terms term oper = Inr (terms, term)"
| "terms_loop re (symb # syms) terms term oper =
     (if symb = ''&'' then terms_loop re syms terms term True
      else if oper then
        (case term of
           None \<Rightarrow> Inl AttributeError
         | Some t \<Rightarrow>
             (case add_expr re t symb of
                Inl e \<Rightarrow> Inl e
              | Inr t1 \<Rightarrow> terms_loop re syms terms (Some t1) False))
      else
        (case add_expr re Term_init symb of
           Inl e \<Rightarrow> Inl e
         | Inr t1 \<Rightarrow>
             terms_loop re syms (case term of None \<Rightarrow> terms | Some t \<Rightarrow> terms @ [t]) (Some t1) False))"

definition build_terms :: "py_re \<Rightarrow> string list \<Rightarrow> error + Term list" where
  "build_terms re args =
     (case terms_loop re (arg_syms args) [] None False of
        Inl e \<Rightarrow> Inl e
      | Inr (terms, term) \<Rightarrow> Inr (case term of None \<Rightarrow> terms | Some t \<Rightarrow> terms @ [t]))"

text \<open>The loop over the terms in \<open>_check_board\<close>, which stops at the first match.\<close>

fun first_match :: "Term list \<Rightarrow> string list \<Rightarrow> string option" where
  "first_match [] prs = None"
| "first_match (t # ts) prs =
     (if Term_matches t prs then Some (Term_str t) else first_match ts prs)"

text \<open>The loop over \<open>exclude_list\<close>, which stops at the first match.\<close>

fun excluded :: "Expr list \<Rightarrow> string list \<Rightarrow> bool" where
  "excluded [] prs = False"
| "excluded (e # es) prs = (if Expr_matches e prs then True else excluded es prs)"

text \<open>
  \<open>result\<close> is an ordered dict from a key to a list of targets:
  \<^verbatim>\<open>result[key].append(t)\<close> needs the key.
\<close>

type_synonym result = "(string \<times> string list) list"

definition result_append :: "string \<Rightarrow> string \<Rightarrow> result \<Rightarrow> error + result" where
  "result_append key t result =
     (case map_of result key of
        None \<Rightarrow> Inl KeyError
      | Some l \<Rightarrow> Inr (AList.update key (l @ [t]) result))"

text \<open>
  \<open>_check_board\<close>, with the variables it shares with \<open>select_boards\<close>: \<open>result\<close> and
  \<open>found\<close>. \<open>brds\<close> is the list of explicit names, empty when the caller gave
  \<open>None\<close> or \<open>[]\<close>, which the code does not tell apart.
\<close>

definition check_board :: "Term list \<Rightarrow> string list \<Rightarrow> Expr list \<Rightarrow> Board \<Rightarrow> result \<times> string list \<Rightarrow> error + Board \<times> result \<times> string list" where
  "check_board terms brds exclude_list brd st =
     (case st of
        (result, found) \<Rightarrow>
          (case (if terms \<noteq> [] then
                   (case first_match terms (props brd) of
                      Some s \<Rightarrow> (Some s, True, found)
                    | None \<Rightarrow> (None, False, found))
                 else if brds \<noteq> [] then
                   (if target brd \<in> set brds then (None, True, found @ [target brd])
                    else (None, False, found))
                 else (None, True, found)) of
             (matching_term, build0, found1) \<Rightarrow>
               if (if excluded exclude_list (props brd) then False else build0) then
                 (case (case matching_term of
                          None \<Rightarrow> Inr result
                        | Some s \<Rightarrow> if s \<noteq> [] then result_append s (target brd) result else Inr result) of
                    Inl e \<Rightarrow> Inl e
                  | Inr result1 \<Rightarrow>
                      (case result_append ''all'' (target brd) result1 of
                         Inl e \<Rightarrow> Inl e
                       | Inr result2 \<Rightarrow> Inr (brd\<lparr>build_it := True\<rparr>, result2, found1)))
               else Inr (brd, result, found1)))"

fun check_boards :: "Term list \<Rightarrow> string list \<Rightarrow> Expr list \<Rightarrow> Board list \<Rightarrow> result \<times> string list \<Rightarrow> error + Board list \<times> result \<times> string list" where
  "check_boards terms brds exclude_list [] st = Inr ([], st)"
| "check_boards terms brds exclude_list (brd # boards) st =
     (case check_board terms brds exclude_list brd st of
        Inl e \<Rightarrow> Inl e
      | Inr (brd1, st1) \<Rightarrow>
          (case check_boards terms brds exclude_list boards st1 of
             Inl e \<Rightarrow> Inl e
           | Inr (boards1, st2) \<Rightarrow> Inr (brd1 # boards1, st2)))"

fun compile_exprs :: "py_re \<Rightarrow> string list \<Rightarrow> error + Expr list" where
  "compile_exprs re [] = Inr []"
| "compile_exprs re (e # es) =
     (case Expr_init re e of
        Inl err \<Rightarrow> Inl err
      | Inr ex \<Rightarrow> (case compile_exprs re es of Inl err \<Rightarrow> Inl err | Inr exs \<Rightarrow> Inr (ex # exs)))"

definition init_result :: "Term list \<Rightarrow> result" where
  "init_result terms = foldl (\<lambda>r t. AList.update (Term_str t) [] r) [(''all'', [])] terms"

text \<open>
  \<open>select_boards\<close> on the boards of \<open>self._boards\<close>; it gives the boards back with
  their flags, the dict and the warnings. \<open>exclude\<close> is empty for \<open>None\<close>. The names
  that were not found are a Python set, whose order of iteration the language leaves
  open: \<open>iter\<close> is that order.
\<close>

definition not_found :: "string list \<Rightarrow> string list \<Rightarrow> string set" where
  "not_found brds found = set brds - set found"

definition select_boards :: "py_re \<Rightarrow> (string set \<Rightarrow> string list) \<Rightarrow> Board list \<Rightarrow> string list \<Rightarrow> string list \<Rightarrow> string list \<Rightarrow> error + Board list \<times> result \<times> string list" where
  "select_boards re iter boards args exclude brds =
     (case build_terms re args of
        Inl e \<Rightarrow> Inl e
      | Inr terms \<Rightarrow>
          (case compile_exprs re exclude of
             Inl e \<Rightarrow> Inl e
           | Inr exclude_list \<Rightarrow>
               (case check_boards terms brds exclude_list boards (init_result terms, []) of
                  Inl e \<Rightarrow> Inl e
                | Inr (boards1, result, found) \<Rightarrow>
                    Inr (boards1, result,
                         (if brds \<noteq> [] \<and> not_found brds found \<noteq> {} then
                            [''Boards not found: '' @ join '', '' (iter (not_found brds found)) @ [CHR 0x0A]]
                          else [])))))"

section \<open>Boards: reading and writing the database\<close>

text \<open>
  \<open>read_boards\<close>. \<open>Board\<close> is the constructor \<^verbatim>\<open>board.Board\<close>, called with the eight
  fields of a line. \<^verbatim>\<open>line[0]\<close> raises on an empty line, which a file never yields.
\<close>

fun read_boards_lines :: "(string list \<Rightarrow> 'b) \<Rightarrow> string list \<Rightarrow> 'b list \<Rightarrow> error + 'b list" where
  "read_boards_lines Board [] boards = Inr boards"
| "read_boards_lines Board (line # lines) boards =
     (case line of
        [] \<Rightarrow> Inl IndexError
      | c # cs \<Rightarrow>
          if c = CHR ''#'' then read_boards_lines Board lines boards
          else
            (let fields = py_split line
             in if fields = [] then read_boards_lines Board lines boards
                else
                  (let fields1 = map (\<lambda>field. if field = ''-'' then [] else field) fields;
                       fields2 = fields1 @ replicate (8 - length fields1) [];
                       fields3 = (if length fields2 > 8 then take 8 fields2 else fields2)
                   in read_boards_lines Board lines (boards @ [Board fields3]))))"

definition read_boards :: "(string list \<Rightarrow> 'b) \<Rightarrow> os_env \<Rightarrow> string \<Rightarrow> 'b list \<Rightarrow> error + 'b list" where
  "read_boards Board os fname boards =
     (case open_read os fname of
        Inl e \<Rightarrow> Inl e
      | Inr text \<Rightarrow> read_boards_lines Board (file_lines text) boards)"

text \<open>\<open>COMMENT_BLOCK\<close>, for the path \<open>file\<close> of the module (\<open>__file__\<close>).\<close>

definition COMMENT_BLOCK :: "string \<Rightarrow> string" where
  "COMMENT_BLOCK file =
     ''#'' @ [CHR 0x0A] @
     ''# List of boards'' @ [CHR 0x0A] @
     ''#   Automatically generated by '' @ file @ '': don'' @ [CHR 0x27] @ ''t edit'' @ [CHR 0x0A] @
     ''#'' @ [CHR 0x0A] @
     ''# Status, Arch, CPU, SoC, Vendor, Board, Target, Config, Maintainers'' @ [CHR 0x0A] @
     [CHR 0x0A]"

definition fields :: "string list" where
  "fields = [''status'', ''arch'', ''cpu'', ''soc'', ''vendor'', ''board'', ''target'', ''config'',
             ''maintainers'']"

text \<open>\<^verbatim>\<open>params[field]\<close> where the key is known to be there.\<close>

definition item :: "params \<Rightarrow> string \<Rightarrow> string" where
  "item params field = (case params field of None \<Rightarrow> [] | Some v \<Rightarrow> v)"

definition max_length :: "params list \<Rightarrow> string \<Rightarrow> nat" where
  "max_length params_list field =
     foldl (\<lambda>m params. max m (length (item params field))) 0 params_list"

definition output_line :: "params list \<Rightarrow> params \<Rightarrow> string" where
  "output_line params_list params =
     py_strip (foldl (\<lambda>line field. line @ ''  '' @ ljust (max_length params_list field) (item params field))
                 [] fields)"

text \<open>
  \<open>format_and_output\<close> gives the text it writes to \<open>output\<close>. A dict without one of
  the nine keys raises in the first loop.
\<close>

definition format_and_output :: "string \<Rightarrow> params list \<Rightarrow> error + string" where
  "format_and_output file params_list =
     (if \<exists>params \<in> set params_list. \<exists>field \<in> set fields. params field = None then Inl KeyError
      else Inr (COMMENT_BLOCK file @
                join [CHR 0x0A] (sort_key py_lower (map (output_line params_list) params_list)) @
                [CHR 0x0A]))"

section \<open>output\_is\_new\<close>







section \<open>Auxiliary notions for the proofs\<close>

text \<open>The value of the local variable \<open>build_it\<close> at the end of \<open>_check_board\<close>.\<close>

definition build_it_of :: "Term list \<Rightarrow> string list \<Rightarrow> Expr list \<Rightarrow> Board \<Rightarrow> bool" where
  "build_it_of terms brds exclude_list brd =
     (\<not> excluded exclude_list (props brd) \<and>
      (if terms \<noteq> [] then first_match terms (props brd) \<noteq> None
       else if brds \<noteq> [] then target brd \<in> set brds
       else True))"

text \<open>What \<open>_check_board\<close> appends to \<open>result[k]\<close> for one board.\<close>

definition recorded :: "Term list \<Rightarrow> string list \<Rightarrow> Expr list \<Rightarrow> Board \<Rightarrow> string \<Rightarrow> string list" where
  "recorded terms brds exclude_list brd k =
     (if build_it_of terms brds exclude_list brd \<and> k \<noteq> [] \<and> first_match terms (props brd) = Some k
      then [target brd] else []) @
     (if build_it_of terms brds exclude_list brd \<and> k = ''all'' then [target brd] else [])"

text \<open>The keys \<open>_check_board\<close> may append to are in \<open>result\<close>.\<close>

definition has_keys :: "Term list \<Rightarrow> result \<Rightarrow> bool" where
  "has_keys terms result =
     (map_of result ''all'' \<noteq> None \<and> (\<forall>t \<in> set terms. map_of result (Term_str t) \<noteq> None))"

text \<open>A term as \<open>_build_terms\<close> makes it: at least one expression, none of them empty.\<close>

definition good_term :: "Term \<Rightarrow> bool" where
  "good_term t = (expr_list t \<noteq> [] \<and> (\<forall>e \<in> set (expr_list t). expr e \<noteq> []))"

text \<open>The eight columns that \<open>read_boards\<close> reads back: \<open>fields\<close> without the last.\<close>

definition column_fields :: "string list" where
  "column_fields = [''status'', ''arch'', ''cpu'', ''soc'', ''vendor'', ''board'', ''target'', ''config'']"

text \<open>A value that is one field of a line: not empty, no whitespace in it.\<close>

definition plain :: "string \<Rightarrow> bool" where
  "plain v = (v \<noteq> [] \<and> list_all (\<lambda>c. \<not> py_isspace c) v)"

text \<open>The lines of \<open>COMMENT_BLOCK\<close>, without their line ends.\<close>

definition header_lines :: "string \<Rightarrow> string list" where
  "header_lines file =
     [''#'', ''# List of boards'',
      ''#   Automatically generated by '' @ file @ '': don'' @ [CHR 0x27] @ ''t edit'',
      ''#'', ''# Status, Arch, CPU, SoC, Vendor, Board, Target, Config, Maintainers'', []]"

text \<open>A string without a line break.\<close>

definition one_line :: "string \<Rightarrow> bool" where
  "one_line s = (CHR 0x0A \<notin> set s \<and> CHR 0x0D \<notin> set s)"

text \<open>
  A dict that \<open>format_and_output\<close> writes as one line of eight columns and the
  maintainers: the nine keys are there, the eight column values are fields, the status
  does not begin the line with the comment sign, the maintainers hold no line break.
\<close>

definition writable :: "params \<Rightarrow> bool" where
  "writable params =
     (list_all (\<lambda>f. plain (item params f)) column_fields \<and>
      take 1 (item params ''status'') \<noteq> ''#'' \<and>
      one_line (item params ''maintainers'') \<and>
      list_all (\<lambda>f. params f \<noteq> None) fields)"


section \<open>Example inputs\<close>

text \<open>
  Patterns without metacharacters: \<open>match\<close> tests for a prefix and \<open>search\<close> for a
  substring. A board with a target and an architecture.
\<close>

definition literal_re :: py_re where
  "literal_re =
     \<lparr>re_compile = (\<lambda>p. Some (\<lambda>s. startswith s p)), re_search = (\<lambda>p s. Some (contains s p))\<rparr>"

definition example_board :: "string \<Rightarrow> string \<Rightarrow> Board" where
  "example_board t a =
     \<lparr>status = ''Active'', arch = a, cpu = ''-'', soc = ''-'', vendor = ''-'', board_name = t,
      target = t, cfg_name = t, props = [t, a], build_it = False\<rparr>"


text \<open>
  A dict of board parameters, and a file system in which every file reads as
  \<open>content\<close>, \<open>ex\<close> tells the paths that exist, and \<open>boards.cfg\<close> is newer than
  the one defconfig and the Kconfig and MAINTAINERS files.
\<close>

definition example_params :: "string \<Rightarrow> string \<Rightarrow> string \<Rightarrow> string \<Rightarrow> string \<Rightarrow> string \<Rightarrow> params" where
  "example_params st a c t cfg m =
     [''status'' \<mapsto> st, ''arch'' \<mapsto> a, ''cpu'' \<mapsto> c, ''soc'' \<mapsto> ''-'', ''vendor'' \<mapsto> ''-'',
      ''board'' \<mapsto> t, ''target'' \<mapsto> t, ''config'' \<mapsto> cfg, ''maintainers'' \<mapsto> m]"

definition written_os :: "(error + string) \<Rightarrow> (string \<Rightarrow> bool) \<Rightarrow> os_env" where
  "written_os content ex =
     \<lparr>getctime = (\<lambda>p. if p = ''boards.cfg'' then Inr 10 else Inr 5),
      walk = (\<lambda>p. if p = ''configs'' then [(''configs'', [''snow_defconfig'', ''.tmp_defconfig''])]
                   else [(p, [''Kconfig'', ''MAINTAINERS'', ''Makefile''])]),
      glob = (\<lambda>p. []),
      path_exists = ex, open_read = (\<lambda>p. content)\<rparr>"

section \<open>Properties of the maintainers database\<close>

text \<open>
  C3. \<open>get_maintainers\<close> answers the empty string and appends the warning
  \<open>no maintainers\<close> exactly when the target is not in the database, or its status
  begins with \<open>Orphan\<close>, or its list of maintainers is empty or is the one-element list
  holding only the sentinel \<open>-\<close>. In every other case it answers the list joined by
  \<open>:\<close> and leaves the warnings as they were.
\<close>

theorem get_maintainers_cases:
  "(case database self t of
      None \<Rightarrow> get_maintainers self t = ([], self\<lparr>warnings := warnings self @ [no_maintainers t]\<rparr>)
    | Some (st, maint_list) \<Rightarrow>
        if startswith st ''Orphan'' \<or> maint_list = [] \<or> maint_list = [''-'']
        then get_maintainers self t = ([], self\<lparr>warnings := warnings self @ [no_maintainers t]\<rparr>)
        else get_maintainers self t = (join '':'' maint_list, self))"
  by (auto simp: get_maintainers_def warn_def split: option.splits list.splits)

theorem get_maintainers_cases_witness:
  "get_maintainers \<lparr>database = [''snow'' \<mapsto> (''Maintained'', [''A <a@b.c>'', ''-''])], warnings = []\<rparr> ''snow''
     = (''A <a@b.c>:-'', \<lparr>database = [''snow'' \<mapsto> (''Maintained'', [''A <a@b.c>'', ''-''])], warnings = []\<rparr>)
   \<and> get_maintainers \<lparr>database = [''snow'' \<mapsto> (''Orphan (since 2020)'', [''A <a@b.c>''])], warnings = []\<rparr> ''snow''
     = ([], \<lparr>database = [''snow'' \<mapsto> (''Orphan (since 2020)'', [''A <a@b.c>''])],
            warnings = [no_maintainers ''snow'']\<rparr>)"
  using get_maintainers_cases [of "\<lparr>database = [''snow'' \<mapsto> (''Maintained'', [''A <a@b.c>'', ''-''])], warnings = []\<rparr>" "''snow''"]
    get_maintainers_cases [of "\<lparr>database = [''snow'' \<mapsto> (''Orphan (since 2020)'', [''A <a@b.c>''])], warnings = []\<rparr>" "''snow''"]
  by (simp add: startswith_def)

text \<open>Neither query changes the database; they only append warnings.\<close>

lemma get_maintainers_database: "database (snd (get_maintainers db t)) = database db"
  by (auto simp: get_maintainers_def warn_def split: option.splits)

lemma get_status_database: "database (snd (get_status db t)) = database db"
  by (auto simp: get_status_def warn_def split: option.splits)

lemma get_maintainers_fst_cong:
  "database db = database db' \<Longrightarrow> fst (get_maintainers db t) = fst (get_maintainers db' t)"
  by (auto simp: get_maintainers_def warn_def split: option.splits)

lemma insert_loop_database:
  "insert_loop db ps = Inr (merged, db1) \<Longrightarrow> database db1 = database db"
proof (induction ps arbitrary: db merged db1)
  case Nil
  then show ?case by simp
next
  case (Cons p ps)
  from Cons.prems obtain tp where tp: "p ''target'' = Some tp"
    by (auto split: option.splits)
  obtain m dbm where gm: "get_maintainers db tp = (m, dbm)"
    by force
  obtain st db2 where st: "(if m \<noteq> [] then get_status dbm tp else (''-'', dbm)) = (st, db2)"
    by force
  from Cons.prems tp gm st obtain rest where rest: "insert_loop db2 ps = Inr (rest, db1)"
    by (auto split: sum.splits prod.splits)
  have "database dbm = database db"
    using gm get_maintainers_database [of db tp] by simp
  moreover have "database db2 = database dbm"
    using st get_status_database [of dbm tp] by (auto split: if_splits)
  ultimately show ?case
    using Cons.IH [OF rest] by simp
qed

lemma insert_loop_length:
  "insert_loop db ps = Inr (merged, db1) \<Longrightarrow> length merged = length ps"
  by (induction ps arbitrary: db merged db1)
    (auto split: option.splits prod.splits sum.splits if_splits)

text \<open>
  The entries of a dict whose target has no maintainers, and the loop over a list that
  is cut in two.
\<close>

lemma insert_loop_default_entries:
  assumes "insert_loop db params_list = Inr (merged, db1)"
    and "i < length params_list"
    and "(params_list ! i) ''target'' = Some t"
    and "fst (get_maintainers db t) = []"
  shows "(merged ! i) ''status'' = Some ''-'' \<and> (merged ! i) ''maintainers'' = Some []"
  using assms
proof (induction params_list arbitrary: db merged db1 i)
  case Nil
  then show ?case by simp
next
  case (Cons p ps)
  obtain m dbm where gm: "get_maintainers db (the (p ''target'')) = (m, dbm)"
    by force
  show ?case
  proof (cases i)
    case 0
    with Cons.prems gm show ?thesis
      by (auto split: option.splits prod.splits sum.splits if_splits)
  next
    case (Suc j)
    from Cons.prems obtain tp where tp: "p ''target'' = Some tp"
      by (auto split: option.splits)
    obtain st db2 where st: "(if m \<noteq> [] then get_status dbm tp else (''-'', dbm)) = (st, db2)"
      by force
    from Cons.prems tp gm st obtain rest where
      rest: "insert_loop db2 ps = Inr (rest, db1)"
      and merged: "merged = p(''maintainers'' \<mapsto> m, ''status'' \<mapsto> st) # rest"
      by (auto split: sum.splits prod.splits)
    have "database dbm = database db"
      using gm tp get_maintainers_database [of db tp] by simp
    moreover have "database db2 = database dbm"
      using st get_status_database [of dbm tp] by (auto split: if_splits)
    ultimately have "fst (get_maintainers db2 t) = []"
      using Cons.prems(4) get_maintainers_fst_cong [of db2 db t] by simp
    with Cons.IH [OF rest, of j] Cons.prems(2,3) Suc merged show ?thesis
      by simp
  qed
qed

lemma insert_loop_append:
  "insert_loop db (xs @ ys) =
     (case insert_loop db xs of
        Inl e \<Rightarrow> Inl e
      | Inr (m1, db1) \<Rightarrow>
          (case insert_loop db1 ys of
             Inl e \<Rightarrow> Inl e
           | Inr (m2, db2) \<Rightarrow> Inr (m1 @ m2, db2)))"
proof (induction xs arbitrary: db)
  case Nil
  show ?case by (cases "insert_loop db ys") auto
next
  case (Cons p xs)
  show ?case
  proof (cases "p ''target''")
    case None
    then show ?thesis by simp
  next
    case (Some tp)
    obtain m dbm where gm: "get_maintainers db tp = (m, dbm)"
      by force
    obtain st db2 where st: "(if m \<noteq> [] then get_status dbm tp else (''-'', dbm)) = (st, db2)"
      by force
    show ?thesis
      using Some gm st Cons.IH [of db2]
      by (simp split: sum.splits prod.splits)
  qed
qed

lemma insert_loop_single_default:
  assumes "p ''target'' = Some t" and "fst (get_maintainers db t) = []"
  shows "insert_loop db [p] =
         Inr ([p(''maintainers'' \<mapsto> [], ''status'' \<mapsto> ''-'')], snd (get_maintainers db t))"
proof -
  obtain m dbm where gm: "get_maintainers db t = (m, dbm)"
    by force
  with assms(2) have "m = []" by simp
  with assms(1) gm show ?thesis by simp
qed

text \<open>
  C10. In the merge loop of \<open>insert_maintainers_info\<close>, a dict whose target has no
  maintainers (\<open>get_maintainers\<close> answers the empty string) gets the status \<open>-\<close> and
  \<open>get_status\<close> is not asked: the database and the warnings after this dict are those
  before it with the effect of \<open>get_maintainers\<close> alone, so \<open>get_status\<close> leaves no
  warning. So it is for a target whose record says \<open>Maintained\<close> and names nobody,
  where \<open>get_status\<close> would answer \<open>Active\<close>, and for a target the database does not
  know, where \<open>get_status\<close> would warn.
\<close>

theorem insert_loop_no_maintainers:
  assumes "insert_loop db params_list = Inr (merged, db1)"
    and "i < length params_list"
    and "(params_list ! i) ''target'' = Some t"
    and "fst (get_maintainers db t) = []"
  shows "(merged ! i) ''status'' = Some ''-'' \<and> (merged ! i) ''maintainers'' = Some [] \<and>
         (\<exists>merged_i dbi.
            insert_loop db (take i params_list) = Inr (merged_i, dbi) \<and>
            insert_loop db (take (Suc i) params_list) =
              Inr (merged_i @ [(params_list ! i)(''maintainers'' \<mapsto> [], ''status'' \<mapsto> ''-'')],
                   snd (get_maintainers dbi t)))"
proof -
  have split: "params_list = take i params_list @ drop i params_list"
    by simp
  from assms(1) obtain merged_i dbi where
    pre: "insert_loop db (take i params_list) = Inr (merged_i, dbi)"
    by (subst (asm) split, subst (asm) insert_loop_append) (auto split: sum.splits)
  have "database dbi = database db"
    using insert_loop_database [OF pre] .
  then have none: "fst (get_maintainers dbi t) = []"
    using assms(4) get_maintainers_fst_cong [of dbi db t] by simp
  have step: "take (Suc i) params_list = take i params_list @ [params_list ! i]"
    using assms(2) by (rule take_Suc_conv_app_nth)
  have "insert_loop db (take (Suc i) params_list) =
      Inr (merged_i @ [(params_list ! i)(''maintainers'' \<mapsto> [], ''status'' \<mapsto> ''-'')],
           snd (get_maintainers dbi t))"
    unfolding step insert_loop_append pre
    using insert_loop_single_default [of "params_list ! i" t dbi, OF assms(3) none] by simp
  with pre insert_loop_default_entries [OF assms] show ?thesis
    by blast
qed

theorem insert_loop_no_maintainers_witness:
  "insert_loop \<lparr>database = [''bar'' \<mapsto> (''Maintained'', [])], warnings = []\<rparr>
     [[''target'' \<mapsto> ''bar''], [''target'' \<mapsto> ''foo'']]
     = Inr ([[''target'' \<mapsto> ''bar'', ''maintainers'' \<mapsto> [], ''status'' \<mapsto> ''-''],
             [''target'' \<mapsto> ''foo'', ''maintainers'' \<mapsto> [], ''status'' \<mapsto> ''-'']],
            \<lparr>database = [''bar'' \<mapsto> (''Maintained'', [])],
             warnings = [no_maintainers ''bar'', no_maintainers ''foo'']\<rparr>)
   \<and> fst (get_status \<lparr>database = [''bar'' \<mapsto> (''Maintained'', [])], warnings = []\<rparr> ''bar'') = ''Active''
   \<and> get_status \<lparr>database = [''bar'' \<mapsto> (''Maintained'', [])], warnings = [no_maintainers ''bar'']\<rparr> ''foo''
       = (''-'', \<lparr>database = [''bar'' \<mapsto> (''Maintained'', [])],
                 warnings = [no_maintainers ''bar'', ''WARNING: no status info for '' @ quoted ''foo'']\<rparr>)
   \<and> ([''target'' \<mapsto> ''foo'', ''maintainers'' \<mapsto> [], ''status'' \<mapsto> ''-'']) ''status'' = Some ''-''"
proof -
  let ?db = "\<lparr>database = [''bar'' \<mapsto> (''Maintained'', []::string list)], warnings = []\<rparr>"
  let ?ps = "[[''target'' \<mapsto> ''bar''], [''target'' \<mapsto> ''foo'']] :: params list"
  have run: "insert_loop ?db ?ps
     = Inr ([[''target'' \<mapsto> ''bar'', ''maintainers'' \<mapsto> [], ''status'' \<mapsto> ''-''],
             [''target'' \<mapsto> ''foo'', ''maintainers'' \<mapsto> [], ''status'' \<mapsto> ''-'']],
            \<lparr>database = [''bar'' \<mapsto> (''Maintained'', [])],
             warnings = [no_maintainers ''bar'', no_maintainers ''foo'']\<rparr>)"
    by (simp add: get_maintainers_def warn_def startswith_def)
  have gm: "fst (get_maintainers ?db ''foo'') = []"
    by (simp add: get_maintainers_def warn_def)
  have gs: "fst (get_status ?db ''bar'') = ''Active''"
    by (simp add: get_status_def startswith_def)
  have gs2: "get_status \<lparr>database = [''bar'' \<mapsto> (''Maintained'', [])], warnings = [no_maintainers ''bar'']\<rparr> ''foo''
       = (''-'', \<lparr>database = [''bar'' \<mapsto> (''Maintained'', [])],
                 warnings = [no_maintainers ''bar'', ''WARNING: no status info for '' @ quoted ''foo'']\<rparr>)"
    by (simp add: get_status_def warn_def)
  from insert_loop_no_maintainers [OF run _ _ gm, of 1] run gs gs2 show ?thesis
    by simp
qed

section \<open>Properties of the ownership parser\<close>













section \<open>Properties of the scanner\<close>

text \<open>
  C7. The two fix-ups of \<open>scan\<close> (\<open>arm\<close> with \<open>armv8\<close> becomes \<open>aarch64\<close>;
  \<open>riscv\<close> becomes \<open>riscv32\<close> or \<open>riscv64\<close> after \<open>ARCH_RV32I\<close>, \<open>riscv64\<close> when
  the symbol cannot be read) are idempotent: applied again to a dict they were applied
  to, whatever the evaluator then says, they change no entry.
\<close>

theorem fixups_idempotent:
  "fixup_riscv syms2 (fixup_aarch64 (fixup_riscv syms (fixup_aarch64 params))) =
   fixup_riscv syms (fixup_aarch64 params)"
  by (simp add: fixup_riscv_def fixup_aarch64_def Let_def)

text \<open>What \<open>scan\<close> returns is normalized: the fix-ups leave it as it is.\<close>

lemma scan_result_normalized:
  assumes "scan load_config str_upper defconfig warn_targets = Inr (params, ws)"
  shows "fixup_riscv syms2 (fixup_aarch64 params) = params"
proof -
  from assms obtain syms params1 where "params = fixup_riscv syms (fixup_aarch64 params1)"
    by (auto simp: scan_def Let_def split: prod.splits if_splits sum.splits)
  then show ?thesis
    by (simp add: fixup_riscv_def fixup_aarch64_def Let_def)
qed

text \<open>
  C9. \<open>scan\<close> cuts the file name at the first \<open>_defconfig\<close>, so a name that ends in the
  suffix and holds it twice fails the assertion, although \<open>parse_file\<close>, which cuts at
  the last one, takes the same file for the target \<open>a_defconfig\<close>.
\<close>

theorem scan_double_suffix:
  "endswith (basename ''configs/a_defconfig_defconfig'') ''_defconfig'' \<and>
   scan load_config str_upper ''configs/a_defconfig_defconfig'' warn_targets = Inl AssertionError \<and>
   glob_targets \<lparr>getctime = gc, walk = wk, glob = (\<lambda>pat. [''./configs/a_defconfig_defconfig'']),
                 path_exists = ex, open_read = rd\<rparr> ''.'' ''configs/*_defconfig'' = [''a_defconfig'']"
  by (simp add: scan_def basename_def py_partition_def py_rpartition_def startswith_def endswith_def
      glob_targets_def)

text \<open>
  What \<open>scan\<close> does keep: whenever it returns, the target is the file name without
  its suffix; and it returns, whatever else the evaluator answers, for every file name
  \<open>X_defconfig\<close> whose \<open>X\<close> does not hold the suffix again, once the evaluator has
  loaded the file and knows the six symbols.
\<close>

lemma partition_from_found:
  "partition_from front s sep = (a, m, r) \<Longrightarrow> m \<noteq> [] \<Longrightarrow> m = sep \<and> front @ s = a @ sep @ r"
proof (induction s arbitrary: front)
  case Nil
  then show ?case by (auto split: if_splits)
next
  case (Cons c cs)
  show ?case
  proof (cases "startswith (c # cs) sep")
    case True
    then have "c # cs = sep @ drop (length sep) (c # cs)"
      unfolding startswith_def by (metis append_take_drop_id)
    with True Cons.prems show ?thesis
      by auto
  next
    case False
    with Cons.prems have "partition_from (front @ [c]) cs sep = (a, m, r)"
      by simp
    from Cons.IH [OF this Cons.prems(2)] show ?thesis
      by simp
  qed
qed

lemma fixups_keep_target:
  "(fixup_riscv syms (fixup_aarch64 params)) ''target'' = params ''target''"
  by (simp add: fixup_riscv_def fixup_aarch64_def Let_def)

lemma scan_target_from_name:
  assumes "scan load_config str_upper defconfig warn_targets = Inr (params, ws)"
  shows "\<exists>X. basename defconfig = X @ ''_defconfig'' \<and> params ''target'' = Some X"
proof -
  obtain X m rear where part: "py_partition (basename defconfig) ''_defconfig'' = (X, m, rear)"
    by (cases "py_partition (basename defconfig) ''_defconfig''") auto
  with assms have ok: "m \<noteq> []" "rear = []"
    by (auto simp: scan_def Let_def split: if_splits)
  from partition_from_found [OF part [unfolded py_partition_def] ok(1)] ok(2)
  have name: "basename defconfig = X @ ''_defconfig''"
    by simp
  from assms part ok have "params ''target'' = Some X"
    by (auto simp: scan_def Let_def fixups_keep_target split: sum.splits)
  with name show ?thesis by blast
qed

lemma suffix_no_overlap:
  assumes "X \<noteq> []" and "startswith (X @ ''_defconfig'') ''_defconfig''"
  shows "startswith X ''_defconfig''"
proof -
  let ?sep = "''_defconfig''"
  let ?k = "length X"
  have len: "length ?sep = 10"
    by simp
  from assms(2) have eq: "take 10 (X @ ?sep) = ?sep"
    unfolding startswith_def len .
  show ?thesis
  proof (cases "10 \<le> ?k")
    case True
    with eq have "take 10 X = ?sep"
      by simp
    then show ?thesis
      unfolding startswith_def len .
  next
    case False
    then have k: "0 < ?k" "?k < 10"
      using assms(1) by simp_all
    have "?sep ! ?k = (take 10 (X @ ?sep)) ! ?k"
      by (simp only: eq)
    also have "\<dots> = (X @ ?sep) ! ?k"
      using k(2) by (rule nth_take)
    also have "\<dots> = CHR ''_''"
      by (simp add: nth_append)
    finally have "?sep ! ?k = CHR ''_''" .
    moreover have "\<forall>j. 0 < j \<and> j < 10 \<longrightarrow> ?sep ! j \<noteq> CHR ''_''"
      by (auto simp: less_Suc_eq numeral_eq_Suc nth_Cons')
    ultimately show ?thesis
      using k by blast
  qed
qed

lemma partition_from_suffix:
  "\<not> contains X ''_defconfig'' \<Longrightarrow>
   partition_from front (X @ ''_defconfig'') ''_defconfig'' = (front @ X, ''_defconfig'', [])"
proof (induction X arbitrary: front)
  case Nil
  then show ?case by (simp add: startswith_def)
next
  case (Cons c X)
  from Cons.prems have no: "\<not> startswith (c # X) ''_defconfig''" and rest: "\<not> contains X ''_defconfig''"
    by simp_all
  from no suffix_no_overlap [of "c # X"] have "\<not> startswith ((c # X) @ ''_defconfig'') ''_defconfig''"
    by blast
  then have "partition_from front ((c # X) @ ''_defconfig'') ''_defconfig'' =
      partition_from (front @ [c]) (X @ ''_defconfig'') ''_defconfig''"
    by simp
  with Cons.IH [OF rest, of "front @ [c]"] show ?case
    by simp
qed

lemma get_symbols_known:
  "\<forall>(key, symbol) \<in> set table. map_of syms symbol \<noteq> None \<Longrightarrow>
   \<exists>params1. get_symbols syms table params = Inr params1"
  by (induction table arbitrary: params) (auto split: option.splits)

lemma scan_succeeds:
  assumes "basename defconfig = X @ ''_defconfig''" and "\<not> contains X ''_defconfig''"
    and "load_config defconfig = Inr syms"
    and "\<forall>(key, symbol) \<in> set SYMBOL_TABLE. map_of syms symbol \<noteq> None"
  shows "\<exists>params ws. scan load_config str_upper defconfig warn_targets = Inr (params, ws) \<and>
           params ''target'' = Some X"
proof -
  have part: "py_partition (basename defconfig) ''_defconfig'' = (X, ''_defconfig'', [])"
    using partition_from_suffix [OF assms(2), of "[]"] assms(1) by (simp add: py_partition_def)
  from get_symbols_known [OF assms(4), of Map.empty] obtain params1 where
    gs: "get_symbols syms SYMBOL_TABLE Map.empty = Inr params1"
    by blast
  show ?thesis
    using part assms(3) gs by (simp add: scan_def Let_def fixups_keep_target)
qed

section \<open>Properties of the selection\<close>

lemma Expr_matches_iff: "Expr_matches e prs \<longleftrightarrow> (\<exists>p \<in> set prs. re_match e p)"
  by (induction prs) auto

lemma excluded_iff: "excluded es prs \<longleftrightarrow> (\<exists>e \<in> set es. Expr_matches e prs)"
  by (induction es) auto

lemma all_match_iff: "all_match es prs \<longleftrightarrow> (\<forall>e \<in> set es. Expr_matches e prs)"
  by (induction es) auto

lemma first_match_Some:
  "first_match ts prs = Some k \<Longrightarrow> \<exists>t \<in> set ts. k = Term_str t \<and> Term_matches t prs"
  by (induction ts) (auto split: if_splits)

lemma first_match_append:
  "\<forall>u \<in> set pre. \<not> Term_matches u prs \<Longrightarrow> Term_matches t prs \<Longrightarrow>
   first_match (pre @ t # post) prs = Some (Term_str t)"
  by (induction pre) auto

lemma map_of_init_result_aux:
  "map_of (foldl (\<lambda>r t. AList.update (Term_str t) [] r) r0 terms) k =
     (if k \<in> Term_str ` set terms then Some [] else map_of r0 k)"
  by (induction terms arbitrary: r0) (auto simp: update_conv')

lemma map_of_init_result:
  "map_of (init_result terms) k =
     (if k = ''all'' \<or> k \<in> Term_str ` set terms then Some [] else None)"
  by (simp add: init_result_def map_of_init_result_aux)

lemma result_append_Some:
  "map_of result k = Some l \<Longrightarrow> result_append k v result = Inr (AList.update k (l @ [v]) result)"
  by (simp add: result_append_def)

lemma check_board_result:
  assumes "has_keys terms result"
  shows "\<exists>result1.
     check_board terms brds exclude_list brd (result, found) =
       Inr (if build_it_of terms brds exclude_list brd then brd\<lparr>build_it := True\<rparr> else brd,
            result1,
            found @ (if terms = [] \<and> brds \<noteq> [] \<and> target brd \<in> set brds then [target brd] else []))
     \<and> (\<forall>k. map_of result1 k = map_option (\<lambda>l. l @ recorded terms brds exclude_list brd k) (map_of result k))"
    (is "\<exists>result1. ?run result1 \<and> ?rec result1")
proof -
  from assms obtain la where la: "map_of result ''all'' = Some la"
    by (auto simp: has_keys_def)
  let ?ra = "AList.update ''all'' (la @ [target brd]) result"
  have ra_all: "result_append ''all'' (target brd) result = Inr ?ra"
    using la by (simp add: result_append_def)
  have all_only: "\<forall>k. map_of ?ra k =
      map_option (\<lambda>l. l @ (if k = ''all'' then [target brd] else [])) (map_of result k)"
    using la by (simp add: update_conv' option.map_ident)
  have unchanged: "\<not> build_it_of terms brds exclude_list brd \<Longrightarrow> ?run result \<and> ?rec result"
  proof -
    assume no: "\<not> build_it_of terms brds exclude_list brd"
    then have "recorded terms brds exclude_list brd = (\<lambda>k. [])"
      by (simp add: recorded_def fun_eq_iff)
    then have "?rec result"
      by (simp add: option.map_ident)
    moreover have "?run result"
    proof (cases "excluded exclude_list (props brd)")
      case True
      with no show ?thesis
        by (cases "first_match terms (props brd)") (simp_all add: check_board_def)
    next
      case False
      with no have "if terms \<noteq> [] then first_match terms (props brd) = None
          else brds \<noteq> [] \<and> target brd \<notin> set brds"
        by (simp add: build_it_of_def split: if_splits)
      with no False show ?thesis
        by (cases "terms = []") (simp_all add: check_board_def)
    qed
    ultimately show ?thesis by simp
  qed
  show ?thesis
  proof (cases "build_it_of terms brds exclude_list brd")
    case False
    with unchanged show ?thesis by blast
  next
    case sel: True
    show ?thesis
    proof (cases "first_match terms (props brd)")
      case None
      with sel have "terms = []"
        by (auto simp: build_it_of_def split: if_splits)
      with sel None have "?run ?ra"
        by (simp add: check_board_def build_it_of_def ra_all)
      moreover from sel None all_only have "?rec ?ra"
        by (simp add: recorded_def)
      ultimately show ?thesis by blast
    next
      case (Some s)
      then have some_terms: "terms \<noteq> []"
        by auto
      from Some obtain t where "t \<in> set terms" "s = Term_str t"
        using first_match_Some by blast
      with assms obtain ls where ls: "map_of result s = Some ls"
        by (auto simp: has_keys_def)
      show ?thesis
      proof (cases "s = []")
        case True
        with sel Some some_terms have "?run ?ra"
          by (simp add: check_board_def build_it_of_def ra_all)
        moreover from sel Some True all_only have "?rec ?ra"
          by (simp add: recorded_def)
        ultimately show ?thesis by blast
      next
        case ne: False
        let ?r1 = "AList.update s (ls @ [target brd]) result"
        let ?r2 = "AList.update ''all'' ((if s = ''all'' then ls @ [target brd] else la) @ [target brd]) ?r1"
        have la1: "map_of ?r1 ''all'' = Some (if s = ''all'' then ls @ [target brd] else la)"
          using la by (simp add: update_conv')
        have ra_s: "result_append s (target brd) result = Inr ?r1"
          using ls by (simp add: result_append_def)
        have ra_all1: "result_append ''all'' (target brd) ?r1 = Inr ?r2"
          using la1 by (simp add: result_append_def)
        have "\<forall>k. map_of ?r2 k =
            map_option (\<lambda>l. l @ (if k = s then [target brd] else []) @ (if k = ''all'' then [target brd] else []))
              (map_of result k)"
          using la ls by (auto simp: update_conv' option.map_ident)
        with sel Some ne have "?rec ?r2"
          by (simp add: recorded_def eq_commute [of s])
        moreover from sel Some some_terms ne have "?run ?r2"
          by (simp add: check_board_def build_it_of_def ra_s ra_all1)
        ultimately show ?thesis by blast
      qed
    qed
  qed
qed

lemma has_keys_map_option:
  "has_keys terms result \<Longrightarrow> \<forall>k. map_of result1 k = map_option (f k) (map_of result k) \<Longrightarrow>
   has_keys terms result1"
  by (auto simp: has_keys_def)

lemma check_boards_result:
  assumes "has_keys terms result"
  shows "\<exists>result1.
     check_boards terms brds exclude_list boards (result, found) =
       Inr (map (\<lambda>b. if build_it_of terms brds exclude_list b then b\<lparr>build_it := True\<rparr> else b) boards,
            result1,
            found @ concat (map (\<lambda>b. if terms = [] \<and> brds \<noteq> [] \<and> target b \<in> set brds then [target b] else []) boards))
     \<and> (\<forall>k. map_of result1 k =
            map_option (\<lambda>l. l @ concat (map (\<lambda>b. recorded terms brds exclude_list b k) boards)) (map_of result k))"
  using assms
proof (induction boards arbitrary: result found)
  case Nil
  then show ?case by (simp add: option.map_ident)
next
  case (Cons b boards)
  let ?f1 = "found @ (if terms = [] \<and> brds \<noteq> [] \<and> target b \<in> set brds then [target b] else [])"
  from check_board_result [OF Cons.prems, of brds exclude_list b found]
  obtain r1 where
    step: "check_board terms brds exclude_list b (result, found) =
       Inr (if build_it_of terms brds exclude_list b then b\<lparr>build_it := True\<rparr> else b, r1, ?f1)"
    and r1: "\<forall>k. map_of r1 k = map_option (\<lambda>l. l @ recorded terms brds exclude_list b k) (map_of result k)"
    by blast
  have "has_keys terms r1"
    using has_keys_map_option [OF Cons.prems r1] .
  from Cons.IH [OF this, of ?f1]
  obtain r2 where
    rest: "check_boards terms brds exclude_list boards (r1, ?f1) =
       Inr (map (\<lambda>b. if build_it_of terms brds exclude_list b then b\<lparr>build_it := True\<rparr> else b) boards,
            r2,
            ?f1 @ concat (map (\<lambda>b. if terms = [] \<and> brds \<noteq> [] \<and> target b \<in> set brds then [target b] else []) boards))"
    and r2: "\<forall>k. map_of r2 k =
            map_option (\<lambda>l. l @ concat (map (\<lambda>b. recorded terms brds exclude_list b k) boards)) (map_of r1 k)"
    by blast
  have "\<forall>k. map_of r2 k =
      map_option (\<lambda>l. l @ concat (map (\<lambda>b. recorded terms brds exclude_list b k) (b # boards))) (map_of result k)"
    using r1 r2 by (simp add: option.map_comp comp_def)
  with step rest show ?case
    by simp
qed

lemma has_keys_init_result: "has_keys terms (init_result terms)"
  by (simp add: has_keys_def map_of_init_result)

lemma select_boards_result:
  assumes "build_terms re args = Inr terms" and "compile_exprs re exclude = Inr exclude_list"
  shows "\<exists>result ws.
     select_boards re iter boards args exclude brds =
       Inr (map (\<lambda>b. if build_it_of terms brds exclude_list b then b\<lparr>build_it := True\<rparr> else b) boards,
            result, ws)
     \<and> (\<forall>k. map_of result k =
            (if k = ''all'' \<or> k \<in> Term_str ` set terms
             then Some (concat (map (\<lambda>b. recorded terms brds exclude_list b k) boards)) else None))"
proof -
  from check_boards_result [OF has_keys_init_result, of terms brds exclude_list boards "[]"]
  obtain r where
    run: "check_boards terms brds exclude_list boards (init_result terms, []) =
       Inr (map (\<lambda>b. if build_it_of terms brds exclude_list b then b\<lparr>build_it := True\<rparr> else b) boards,
            r,
            [] @ concat (map (\<lambda>b. if terms = [] \<and> brds \<noteq> [] \<and> target b \<in> set brds then [target b] else []) boards))"
    and r: "\<forall>k. map_of r k =
            map_option (\<lambda>l. l @ concat (map (\<lambda>b. recorded terms brds exclude_list b k) boards))
              (map_of (init_result terms) k)"
    by blast
  from r have "\<forall>k. map_of r k =
            (if k = ''all'' \<or> k \<in> Term_str ` set terms
             then Some (concat (map (\<lambda>b. recorded terms brds exclude_list b k) boards)) else None)"
    by (simp add: map_of_init_result)
  with run assms show ?thesis
    by (simp add: select_boards_def)
qed

lemma select_boards_Inr:
  assumes "select_boards re iter boards args exclude brds = Inr out"
  shows "\<exists>terms exclude_list. build_terms re args = Inr terms \<and> compile_exprs re exclude = Inr exclude_list"
  using assms by (auto simp: select_boards_def split: sum.splits)

lemma compile_exprs_Inr:
  "compile_exprs re xs = Inr es \<Longrightarrow>
   es = map (\<lambda>x. \<lparr>expr = x, re_match = the (re_compile re x)\<rparr>) xs \<and> (\<forall>x \<in> set xs. re_compile re x \<noteq> None)"
  by (induction xs arbitrary: es) (auto simp: Expr_init_def split: option.splits sum.splits)

lemma recorded_subset: "set (recorded terms brds exclude_list b k) \<subseteq> {target b}"
  by (auto simp: recorded_def)

lemma recorded_excluded:
  "excluded exclude_list (props b) \<Longrightarrow> recorded terms brds exclude_list b k = []"
  by (simp add: recorded_def build_it_of_def)

lemma not_recorded_elsewhere:
  assumes "distinct (map target boards)" and "i < length boards"
    and "recorded terms brds exclude_list (boards ! i) k = []"
  shows "target (boards ! i) \<notin> set (concat (map (\<lambda>b. recorded terms brds exclude_list b k) boards))"
proof
  assume "target (boards ! i) \<in> set (concat (map (\<lambda>b. recorded terms brds exclude_list b k) boards))"
  then obtain b where b: "b \<in> set boards" "target (boards ! i) \<in> set (recorded terms brds exclude_list b k)"
    by auto
  then have "target b = target (boards ! i)"
    using recorded_subset [of terms brds exclude_list b k] by auto
  with assms(1,2) b(1) have "b = boards ! i"
    by (metis distinct_map inj_on_def nth_mem)
  with b(2) assms(3) show False by simp
qed

lemma Term_matches_iff:
  "Term_matches t prs \<longleftrightarrow> (\<forall>e \<in> set (expr_list t). \<exists>p \<in> set prs. re_match e p)"
  by (simp add: Term_matches_def all_match_iff Expr_matches_iff)

lemma join_nonempty: "xs \<noteq> [] \<Longrightarrow> hd xs \<noteq> [] \<Longrightarrow> join sep xs \<noteq> []"
  by (induction sep xs rule: join.induct) auto

lemma good_term_str: "good_term t \<Longrightarrow> Term_str t \<noteq> []"
  unfolding good_term_def Term_str_def
  by (rule join_nonempty) (auto simp: hd_map)

lemma add_expr_good:
  "add_expr re t s = Inr t1 \<Longrightarrow> s \<noteq> [] \<Longrightarrow> \<forall>e \<in> set (expr_list t). expr e \<noteq> [] \<Longrightarrow> good_term t1"
  by (auto simp: add_expr_def Expr_init_def good_term_def split: sum.splits option.splits)

lemma terms_loop_good:
  assumes "terms_loop re syms terms term oper = Inr (terms1, term1)"
    and "\<forall>s \<in> set syms. s \<noteq> []"
    and "\<forall>t \<in> set terms. good_term t" and "\<forall>t. term = Some t \<longrightarrow> good_term t"
  shows "(\<forall>t \<in> set terms1. good_term t) \<and> (\<forall>t. term1 = Some t \<longrightarrow> good_term t)"
  using assms
proof (induction re syms terms "term" oper rule: terms_loop.induct)
  case (1 re terms "term" oper)
  then show ?case by simp
next
  case (2 re symb syms terms "term" oper)
  show ?case
  proof (cases "symb = ''&''")
    case True
    with "2.prems"(1) have run: "terms_loop re syms terms term True = Inr (terms1, term1)"
      by simp
    show ?thesis
    proof (rule "2.IH"(1) [OF True run])
      show "\<forall>s \<in> set syms. s \<noteq> []"
        using "2.prems"(2) by simp
    qed (rule "2.prems"(3), rule "2.prems"(4))
  next
    case amp: False
    show ?thesis
    proof (cases oper)
      case True
      from "2.prems"(1) amp True
      have eq: "(case term of
                   None \<Rightarrow> Inl AttributeError
                 | Some t \<Rightarrow>
                     (case add_expr re t symb of
                        Inl e \<Rightarrow> Inl e
                      | Inr t1 \<Rightarrow> terms_loop re syms terms (Some t1) False)) = Inr (terms1, term1)"
        by simp
      then obtain t where t1: "term = Some t"
        by (cases "term") simp_all
      with eq obtain t1 where t2: "add_expr re t symb = Inr t1"
        by (cases "add_expr re t symb") simp_all
      note t = t1 t2
      from eq t have run: "terms_loop re syms terms (Some t1) False = Inr (terms1, term1)"
        by simp
      have ne: "symb \<noteq> []" and gt: "good_term t"
        using "2.prems"(2,4) t(1) by simp_all
      have g1: "good_term t1"
      proof (rule add_expr_good [OF t(2) ne])
        show "\<forall>e \<in> set (expr_list t). expr e \<noteq> []"
          using gt unfolding good_term_def by blast
      qed
      show ?thesis
      proof (rule "2.IH"(2) [OF amp True t(1) t(2) run])
        show "\<forall>s \<in> set syms. s \<noteq> []"
          using "2.prems"(2) by simp
        show "\<forall>t \<in> set terms. good_term t"
          by (rule "2.prems"(3))
        show "\<forall>u. Some t1 = Some u \<longrightarrow> good_term u"
          using g1 by simp
      qed
    next
      case False
      from "2.prems"(1) amp False
      have eq: "(case add_expr re Term_init symb of
                   Inl e \<Rightarrow> Inl e
                 | Inr t1 \<Rightarrow>
                     terms_loop re syms (case term of None \<Rightarrow> terms | Some t \<Rightarrow> terms @ [t]) (Some t1) False)
                = Inr (terms1, term1)"
        by simp
      then obtain t1 where t: "add_expr re Term_init symb = Inr t1"
        by (cases "add_expr re Term_init symb") simp_all
      with eq have run: "terms_loop re syms (case term of None \<Rightarrow> terms | Some t \<Rightarrow> terms @ [t]) (Some t1) False
            = Inr (terms1, term1)"
        by simp
      have ne: "symb \<noteq> []"
        using "2.prems"(2) by simp
      have g1: "good_term t1"
        by (rule add_expr_good [OF t ne]) (simp add: Term_init_def)
      have gs: "\<forall>t \<in> set (case term of None \<Rightarrow> terms | Some t \<Rightarrow> terms @ [t]). good_term t"
        using "2.prems"(3,4) by (cases "term") simp_all
      show ?thesis
      proof (rule "2.IH"(3) [OF amp False t run])
        show "\<forall>s \<in> set syms. s \<noteq> []"
          using "2.prems"(2) by simp
        show "\<forall>t \<in> set (case term of None \<Rightarrow> terms | Some t \<Rightarrow> terms @ [t]). good_term t"
          by (rule gs)
        show "\<forall>t. Some t1 = Some t \<longrightarrow> good_term t"
          using g1 by simp
      qed
    qed
  qed
qed

lemma word_syms_nonempty: "s \<in> set (word_syms w) \<Longrightarrow> s \<noteq> []"
  by (auto simp: word_syms_def dest!: in_set_butlastD split: if_splits)

lemma arg_syms_nonempty: "s \<in> set (arg_syms args) \<Longrightarrow> s \<noteq> []"
proof -
  assume "s \<in> set (arg_syms args)"
  then obtain w where "s \<in> set (word_syms w)"
    by (auto simp: arg_syms_def)
  then show ?thesis by (rule word_syms_nonempty)
qed

lemma build_terms_good:
  assumes "build_terms re args = Inr terms" and "t \<in> set terms"
  shows "Term_str t \<noteq> []"
proof -
  from assms(1) obtain ts tm where run: "terms_loop re (arg_syms args) [] None False = Inr (ts, tm)"
    and terms: "terms = (case tm of None \<Rightarrow> ts | Some t \<Rightarrow> ts @ [t])"
    by (auto simp: build_terms_def split: sum.splits)
  from terms_loop_good [OF run] have "(\<forall>t \<in> set ts. good_term t) \<and> (\<forall>t. tm = Some t \<longrightarrow> good_term t)"
    by (simp add: arg_syms_nonempty)
  with terms assms(2) have "good_term t"
    by (auto split: option.splits)
  then show ?thesis by (rule good_term_str)
qed

lemma excluded_compiled:
  "compile_exprs re exclude = Inr exclude_list \<Longrightarrow>
   excluded exclude_list prs \<longleftrightarrow>
     (\<exists>x \<in> set exclude. \<exists>m. re_compile re x = Some m \<and> (\<exists>p \<in> set prs. m p))"
proof (induction exclude arbitrary: exclude_list)
  case Nil
  then show ?case by auto
next
  case (Cons x xs)
  from Cons.prems obtain m es where m: "re_compile re x = Some m"
    and es: "compile_exprs re xs = Inr es"
    and el: "exclude_list = \<lparr>expr = x, re_match = m\<rparr> # es"
    by (auto simp: Expr_init_def split: option.splits sum.splits)
  show ?case
    using Cons.IH [OF es] m by (simp add: el Expr_matches_iff)
qed

lemmas sel_eval = select_boards_def build_terms_def arg_syms_def word_syms_def py_split_def split_sep_def
      py_isspace_def whitespace_chars_def add_expr_def Expr_init_def Term_init_def init_result_def
      Term_str_def check_board_def Term_matches_def not_found_def result_append_def

text \<open>
  C4. Exclusion overrides inclusion. When \<open>select_boards\<close> returns, a board one of
  whose properties is matched by one of the exclusion expressions is not selected,
  however it was included (by a term, by its name, or by default): its flag
  \<open>build_it\<close> is not set and its target is not in \<open>result['all']\<close>. The boards
  enter as \<open>read_boards\<close> leaves them: with different targets, and this one not marked.
\<close>

theorem exclusion_overrides:
  assumes "select_boards re iter boards args exclude brds = Inr (boards1, result, ws)"
    and "distinct (map target boards)"
    and "i < length boards"
    and "\<not> build_it (boards ! i)"
    and "x \<in> set exclude" and "re_compile re x = Some m"
    and "p \<in> set (props (boards ! i))" and "m p"
  shows "\<not> build_it (boards1 ! i) \<and>
         (\<exists>l. map_of result ''all'' = Some l \<and> target (boards ! i) \<notin> set l)"
proof -
  from select_boards_Inr [OF assms(1)] obtain terms exclude_list where
    bt: "build_terms re args = Inr terms" and ce: "compile_exprs re exclude = Inr exclude_list"
    by blast
  from compile_exprs_Inr [OF ce] assms(5,6)
  have "\<lparr>expr = x, re_match = m\<rparr> \<in> set exclude_list"
    by force
  moreover have "Expr_matches \<lparr>expr = x, re_match = m\<rparr> (props (boards ! i))"
    using assms(7,8) by (auto simp: Expr_matches_iff)
  ultimately have ex: "excluded exclude_list (props (boards ! i))"
    unfolding excluded_iff by blast
  from select_boards_result [OF bt ce, of iter boards brds] assms(1)
  have b1: "boards1 = map (\<lambda>b. if build_it_of terms brds exclude_list b then b\<lparr>build_it := True\<rparr> else b) boards"
    and res: "map_of result ''all'' = Some (concat (map (\<lambda>b. recorded terms brds exclude_list b ''all'') boards))"
    by auto
  from ex have "\<not> build_it_of terms brds exclude_list (boards ! i)"
    by (simp add: build_it_of_def)
  with b1 assms(3,4) have "\<not> build_it (boards1 ! i)"
    by simp
  moreover have "target (boards ! i) \<notin> set (concat (map (\<lambda>b. recorded terms brds exclude_list b ''all'') boards))"
    using not_recorded_elsewhere [OF assms(2,3) recorded_excluded [OF ex]] .
  ultimately show ?thesis
    using res by simp
qed

theorem exclusion_overrides_witness:
  "select_boards literal_re (\<lambda>S. []) [example_board ''snow'' ''arm'', example_board ''sandbox'' ''sandbox'']
      [] [''arm''] []
     = Inr ([example_board ''snow'' ''arm'', (example_board ''sandbox'' ''sandbox'')\<lparr>build_it := True\<rparr>],
            [(''all'', [''sandbox''])], [])
   \<and> \<not> build_it ([example_board ''snow'' ''arm'', (example_board ''sandbox'' ''sandbox'')\<lparr>build_it := True\<rparr>] ! 0)
   \<and> (\<exists>l. map_of [(''all'', [''sandbox''])] ''all'' = Some l \<and> ''snow'' \<notin> set l)"
proof -
  let ?boards = "[example_board ''snow'' ''arm'', example_board ''sandbox'' ''sandbox'']"
  have run: "select_boards literal_re (\<lambda>S. []) ?boards [] [''arm''] []
     = Inr ([example_board ''snow'' ''arm'', (example_board ''sandbox'' ''sandbox'')\<lparr>build_it := True\<rparr>],
            [(''all'', [''sandbox''])], [])"
    by (simp add: sel_eval literal_re_def example_board_def startswith_def)
  have d: "distinct (map target ?boards)"
    by (simp add: example_board_def)
  have c: "re_compile literal_re ''arm'' = Some (\<lambda>s. startswith s ''arm'')"
    by (simp add: literal_re_def)
  from exclusion_overrides [OF run d, of 0 "''arm''" "\<lambda>s. startswith s ''arm''" "''arm''"] c run
  show ?thesis
    by (simp add: example_board_def startswith_def)
qed

text \<open>
  The hypothesis on the flag is needed: \<open>select_boards\<close> sets flags and never clears
  one, so a board that enters marked leaves marked.
\<close>

lemma select_boards_keeps_marks:
  assumes "select_boards re iter boards args exclude brds = Inr (boards1, result, ws)"
    and "i < length boards" and "build_it (boards ! i)"
  shows "build_it (boards1 ! i)"
proof -
  from select_boards_Inr [OF assms(1)] obtain terms exclude_list where
    bt: "build_terms re args = Inr terms" and ce: "compile_exprs re exclude = Inr exclude_list"
    by blast
  from select_boards_result [OF bt ce, of iter boards brds] assms(1)
  have "boards1 = map (\<lambda>b. if build_it_of terms brds exclude_list b then b\<lparr>build_it := True\<rparr> else b) boards"
    by auto
  with assms(2,3) show ?thesis
    by simp
qed

text \<open>
  C5. A term matches a list of properties iff each of its expressions matches at least
  one property. Across the terms the first match wins: for a board that the term \<open>t\<close>
  matches and no term before it does, the loop answers the string of \<open>t\<close> whatever the
  terms after \<open>t\<close> are, the target of the board is under no other key of \<open>result\<close>
  than that string and the bucket \<open>all\<close>, and it is under that string unless an
  exclusion expression matches the board.
\<close>

theorem first_term_wins:
  assumes "select_boards re iter boards args exclude brds = Inr (boards1, result, ws)"
    and "build_terms re args = Inr (pre @ t # post)"
    and "\<forall>u \<in> set pre. \<not> Term_matches u (props (boards ! i))"
    and "Term_matches t (props (boards ! i))"
    and "i < length boards"
    and "distinct (map target boards)"
  shows "(\<forall>u prs. Term_matches u prs \<longleftrightarrow> (\<forall>e \<in> set (expr_list u). \<exists>p \<in> set prs. re_match e p)) \<and>
         first_match (pre @ t # post) (props (boards ! i)) = Some (Term_str t) \<and>
         first_match (pre @ [t]) (props (boards ! i)) = Some (Term_str t) \<and>
         (\<forall>k l. map_of result k = Some l \<and> k \<noteq> Term_str t \<and> k \<noteq> ''all'' \<longrightarrow> target (boards ! i) \<notin> set l) \<and>
         ((\<forall>x \<in> set exclude. \<forall>m. re_compile re x = Some m \<longrightarrow> (\<forall>p \<in> set (props (boards ! i)). \<not> m p)) \<longrightarrow>
          (\<exists>l. map_of result (Term_str t) = Some l \<and> target (boards ! i) \<in> set l))"
proof -
  let ?b = "boards ! i"
  let ?terms = "pre @ t # post"
  from select_boards_Inr [OF assms(1)] assms(2) obtain exclude_list where
    ce: "compile_exprs re exclude = Inr exclude_list"
    by auto
  from select_boards_result [OF assms(2) ce, of iter boards brds] assms(1)
  have res: "\<And>k. map_of result k =
      (if k = ''all'' \<or> k \<in> Term_str ` set ?terms
       then Some (concat (map (\<lambda>b. recorded ?terms brds exclude_list b k) boards)) else None)"
    by auto
  have fm: "first_match ?terms (props ?b) = Some (Term_str t)"
    using first_match_append [OF assms(3,4)] .
  have fm1: "first_match (pre @ [t]) (props ?b) = Some (Term_str t)"
    using first_match_append [OF assms(3,4), of "[]"] .
  have only: "target ?b \<notin> set l" if "map_of result k = Some l" "k \<noteq> Term_str t" "k \<noteq> ''all''" for k l
  proof -
    from that(2,3) fm have "recorded ?terms brds exclude_list ?b k = []"
      by (auto simp: recorded_def)
    from not_recorded_elsewhere [OF assms(6,5) this] that(1) res [of k] show ?thesis
      by (auto split: if_splits)
  qed
  have there: "\<exists>l. map_of result (Term_str t) = Some l \<and> target ?b \<in> set l"
    if free: "\<forall>x \<in> set exclude. \<forall>m. re_compile re x = Some m \<longrightarrow> (\<forall>p \<in> set (props ?b). \<not> m p)"
  proof -
    from free have "\<not> excluded exclude_list (props ?b)"
      unfolding excluded_compiled [OF ce] by blast
    with fm have sel: "build_it_of ?terms brds exclude_list ?b"
      by (simp add: build_it_of_def)
    have "Term_str t \<noteq> []"
      using build_terms_good [OF assms(2), of t] by simp
    with sel fm have "target ?b \<in> set (recorded ?terms brds exclude_list ?b (Term_str t))"
      by (simp add: recorded_def)
    moreover have "?b \<in> set boards"
      using assms(5) by simp
    ultimately have "target ?b \<in> set (concat (map (\<lambda>b. recorded ?terms brds exclude_list b (Term_str t)) boards))"
      by auto
    with res [of "Term_str t"] show ?thesis
      by simp
  qed
  from fm fm1 only there show ?thesis
    using Term_matches_iff by blast
qed

theorem first_term_wins_witness:
  "select_boards literal_re (\<lambda>S. []) [example_board ''snow'' ''arm'', example_board ''sandbox'' ''sandbox'']
      [''arm sand'', ''sandbox''] [] []
     = Inr ([(example_board ''snow'' ''arm'')\<lparr>build_it := True\<rparr>, (example_board ''sandbox'' ''sandbox'')\<lparr>build_it := True\<rparr>],
            [(''all'', [''snow'', ''sandbox'']), (''arm'', [''snow'']), (''sand'', [''sandbox'']), (''sandbox'', [])], [])
   \<and> (\<exists>l. map_of [(''all'', [''snow'', ''sandbox'']), (''arm'', [''snow'']), (''sand'', [''sandbox'']), (''sandbox'', [])]
            ''sand'' = Some l \<and> ''sandbox'' \<in> set l)
   \<and> map_of [(''all'', [''snow'', ''sandbox'']), (''arm'', [''snow'']), (''sand'', [''sandbox'']), (''sandbox'', [])]
         ''sandbox'' = Some []"
proof -
  let ?boards = "[example_board ''snow'' ''arm'', example_board ''sandbox'' ''sandbox'']"
  let ?t = "\<lambda>e. \<lparr>expr_list = [\<lparr>expr = e, re_match = (\<lambda>s. startswith s e)\<rparr>], board_count = 0\<rparr>"
  have run: "select_boards literal_re (\<lambda>S. []) ?boards [''arm sand'', ''sandbox''] [] []
     = Inr ([(example_board ''snow'' ''arm'')\<lparr>build_it := True\<rparr>, (example_board ''sandbox'' ''sandbox'')\<lparr>build_it := True\<rparr>],
            [(''all'', [''snow'', ''sandbox'']), (''arm'', [''snow'']), (''sand'', [''sandbox'']), (''sandbox'', [])], [])"
    by (simp add: sel_eval literal_re_def example_board_def startswith_def)
  have bt: "build_terms literal_re [''arm sand'', ''sandbox''] = Inr ([?t ''arm''] @ ?t ''sand'' # [?t ''sandbox''])"
    by (simp add: sel_eval literal_re_def)
  have pre: "\<forall>u \<in> set [?t ''arm'']. \<not> Term_matches u (props (?boards ! 1))"
    by (simp add: Term_matches_def example_board_def startswith_def)
  have m: "Term_matches (?t ''sand'') (props (?boards ! 1))"
    by (simp add: Term_matches_def example_board_def startswith_def)
  have d: "distinct (map target ?boards)"
    by (simp add: example_board_def)
  from first_term_wins [OF run bt pre m _ d]
  show ?thesis
    using run by (simp add: example_board_def Term_str_def)
qed


text \<open>
  With at least one term, the explicit names play no part: a board is selected iff a
  term matches it and no exclusion does, and every explicit name is reported as not
  found.
\<close>

lemma select_boards_with_terms:
  assumes "build_terms re args = Inr terms" and "terms \<noteq> []"
    and "compile_exprs re exclude = Inr exclude_list"
  shows "\<exists>result.
     select_boards re iter boards args exclude brds =
       Inr (map (\<lambda>b. if \<not> excluded exclude_list (props b) \<and> first_match terms (props b) \<noteq> None
                      then b\<lparr>build_it := True\<rparr> else b) boards,
            result,
            if brds \<noteq> [] then [''Boards not found: '' @ join '', '' (iter (set brds)) @ [CHR 0x0A]]
            else [])"
proof -
  from check_boards_result [OF has_keys_init_result, of terms brds exclude_list boards "[]"]
  obtain r where
    run: "check_boards terms brds exclude_list boards (init_result terms, []) =
       Inr (map (\<lambda>b. if build_it_of terms brds exclude_list b then b\<lparr>build_it := True\<rparr> else b) boards,
            r,
            [] @ concat (map (\<lambda>b. if terms = [] \<and> brds \<noteq> [] \<and> target b \<in> set brds then [target b] else []) boards))"
    by blast
  have found: "concat (map (\<lambda>b. if terms = [] \<and> brds \<noteq> [] \<and> target b \<in> set brds then [target b] else []) boards) = []"
    using assms(2) by simp
  have sel: "build_it_of terms brds exclude_list =
      (\<lambda>b. \<not> excluded exclude_list (props b) \<and> first_match terms (props b) \<noteq> None)"
    using assms(2) by (simp add: build_it_of_def fun_eq_iff)
  have nf: "brds \<noteq> [] \<Longrightarrow> not_found brds [] \<noteq> {}"
    by (cases brds) (auto simp: not_found_def)
  show ?thesis
    using run assms(1,3) nf unfolding found sel
    by (auto simp: select_boards_def not_found_def)
qed

text \<open>
  C1. With a term and an explicit name both given, \<open>select_boards\<close> does not look at
  the names: the board \<open>b1\<close>, named explicitly and matched by no term, is not selected,
  and the warning lists it among the boards not found.
\<close>

theorem select_boards_terms_hide_names:
  "select_boards \<lparr>re_compile = (\<lambda>p. Some (\<lambda>s. startswith s p)), re_search = sr\<rparr> iter
     [\<lparr>status = ''Active'', arch = ''arm'', cpu = ''armv7'', soc = ''-'', vendor = ''-'',
       board_name = ''b1'', target = ''b1'', cfg_name = ''b1'',
       props = [''b1'', ''arm'', ''armv7''], build_it = False\<rparr>]
     [''sandbox''] [] [''b1'']
   = Inr ([\<lparr>status = ''Active'', arch = ''arm'', cpu = ''armv7'', soc = ''-'', vendor = ''-'',
            board_name = ''b1'', target = ''b1'', cfg_name = ''b1'',
            props = [''b1'', ''arm'', ''armv7''], build_it = False\<rparr>],
          [(''all'', []), (''sandbox'', [])],
          [''Boards not found: '' @ join '', '' (iter {''b1''}) @ [CHR 0x0A]])"
  by (simp add: select_boards_def build_terms_def arg_syms_def word_syms_def py_split_def split_sep_def
      py_isspace_def whitespace_chars_def add_expr_def Expr_init_def Term_init_def init_result_def
      Term_str_def check_board_def Term_matches_def startswith_def not_found_def)

section \<open>Properties of reading and writing the database\<close>

lemma split_run_word:
  "\<forall>c \<in> set w. \<not> py_isspace c \<Longrightarrow> split_run cur (w @ rest) = split_run (cur @ w) rest"
  by (induction w arbitrary: cur) auto

lemma split_run_spaces:
  "\<forall>c \<in> set sp. py_isspace c \<Longrightarrow> split_run [] (sp @ rest) = split_run [] rest"
  by (induction sp) auto

lemma split_run_end:
  "cur \<noteq> [] \<Longrightarrow> rest = [] \<or> py_isspace (hd rest) \<Longrightarrow> split_run cur rest = cur # split_run [] rest"
  by (cases rest) auto

lemma split_run_only_spaces:
  "\<forall>c \<in> set sp. py_isspace c \<Longrightarrow> split_run cur sp = (if cur = [] then [] else [cur])"
  by (induction sp arbitrary: cur) auto

lemma split_run_trailing:
  "\<forall>c \<in> set sp. py_isspace c \<Longrightarrow> split_run cur (s @ sp) = split_run cur s"
  by (induction s arbitrary: cur) (auto simp: split_run_only_spaces)

lemma py_split_lstrip: "py_split (py_lstrip s) = py_split s"
proof -
  have "s = takeWhile py_isspace s @ dropWhile py_isspace s"
    by simp
  then have "split_run [] s = split_run [] (dropWhile py_isspace s)"
    by (metis split_run_spaces set_takeWhileD)
  then show ?thesis
    by (simp add: py_split_def py_lstrip_def)
qed

lemma py_rstrip_decomp:
  "\<exists>sp. (\<forall>c \<in> set sp. py_isspace c) \<and> s = py_rstrip s @ sp"
proof -
  have "rev s = takeWhile py_isspace (rev s) @ dropWhile py_isspace (rev s)"
    by simp
  then have "s = rev (dropWhile py_isspace (rev s)) @ rev (takeWhile py_isspace (rev s))"
    by (metis rev_append rev_rev_ident)
  moreover have "\<forall>c \<in> set (rev (takeWhile py_isspace (rev s))). py_isspace c"
    by (auto dest: set_takeWhileD)
  ultimately show ?thesis
    unfolding py_rstrip_def by blast
qed

lemma py_split_rstrip: "py_split (py_rstrip s) = py_split s"
proof -
  from py_rstrip_decomp [of s] obtain sp where sp: "\<forall>c \<in> set sp. py_isspace c" "s = py_rstrip s @ sp"
    by blast
  have "split_run [] (py_rstrip s @ sp) = split_run [] (py_rstrip s)"
    using sp(1) by (rule split_run_trailing)
  with sp(2) show ?thesis
    by (simp add: py_split_def)
qed

lemma py_split_strip: "py_split (py_strip s) = py_split s"
  by (simp add: py_strip_def py_split_rstrip py_split_lstrip)

lemma py_split_newline: "py_split (s @ [CHR 0x0A]) = py_split s"
  unfolding py_split_def
  by (rule split_run_trailing) (simp add: py_isspace_def whitespace_chars_def)

lemma plain_chars: "plain v \<Longrightarrow> \<forall>c \<in> set v. \<not> py_isspace c"
  by (simp add: plain_def list_all_iff)

lemma split_run_column:
  assumes "plain v" and "rest = [] \<or> py_isspace (hd rest)"
  shows "split_run [] (''  '' @ ljust n v @ rest) = v # split_run [] rest"
proof -
  let ?pad = "replicate (n - length v) CHR '' ''"
  have sp: "py_isspace CHR '' ''"
    by (simp add: py_isspace_def whitespace_chars_def)
  have "split_run [] (''  '' @ ljust n v @ rest) = split_run [] (v @ ?pad @ rest)"
    using split_run_spaces [of "''  ''" "v @ ?pad @ rest"] sp by (simp add: ljust_def)
  also have "\<dots> = split_run v (?pad @ rest)"
    using split_run_word [OF plain_chars [OF assms(1)], of "[]"] by simp
  also have "\<dots> = v # split_run [] (?pad @ rest)"
  proof (rule split_run_end)
    show "v \<noteq> []" using assms(1) by (simp add: plain_def)
    show "?pad @ rest = [] \<or> py_isspace (hd (?pad @ rest))"
      using assms(2) sp by (cases "n - length v") auto
  qed
  also have "split_run [] (?pad @ rest) = split_run [] rest"
    using sp by (intro split_run_spaces) simp
  finally show ?thesis .
qed

lemma split_run_columns:
  assumes "\<forall>f \<in> set fs. plain (item p f)" and "rest = [] \<or> py_isspace (hd rest)"
  shows "split_run [] (concat (map (\<lambda>f. ''  '' @ ljust (w f) (item p f)) fs) @ rest) =
         map (item p) fs @ split_run [] rest"
  using assms(1)
proof (induction fs)
  case Nil
  then show ?case by simp
next
  case (Cons f fs)
  let ?tail = "concat (map (\<lambda>f. ''  '' @ ljust (w f) (item p f)) fs) @ rest"
  have "?tail = [] \<or> py_isspace (hd ?tail)"
    using assms(2) by (cases fs) (auto simp: py_isspace_def whitespace_chars_def)
  from split_run_column [OF _ this, of "item p f" "w f"] Cons show ?case
    by simp
qed

lemma foldl_append_concat:
  "foldl (\<lambda>line f. line @ g f) acc fs = acc @ concat (map g fs)"
  by (induction fs arbitrary: acc) auto

lemma fields_split: "fields = column_fields @ [''maintainers'']"
  by (simp add: fields_def column_fields_def)

lemma py_split_ljust: "py_split (''  '' @ ljust n m) = py_split m"
proof -
  have sp: "py_isspace CHR '' ''"
    by (simp add: py_isspace_def whitespace_chars_def)
  have "split_run [] (''  '' @ ljust n m) = split_run [] (ljust n m)"
    using split_run_spaces [of "''  ''" "ljust n m"] sp by simp
  also have "\<dots> = split_run [] m"
    unfolding ljust_def using sp by (intro split_run_trailing) simp
  finally show ?thesis by (simp add: py_split_def)
qed

lemma py_split_output_line:
  assumes "\<forall>f \<in> set column_fields. plain (item p f)"
  shows "py_split (output_line ps p @ [CHR 0x0A]) =
         map (item p) column_fields @ py_split (item p ''maintainers'')"
proof -
  let ?g = "\<lambda>f. ''  '' @ ljust (max_length ps f) (item p f)"
  let ?last = "''  '' @ ljust (max_length ps ''maintainers'') (item p ''maintainers'')"
  have raw: "foldl (\<lambda>line field. line @ ''  '' @ ljust (max_length ps field) (item p field)) [] fields
      = concat (map ?g column_fields) @ ?last"
    using foldl_append_concat [of ?g "[]" fields] by (simp add: fields_split)
  have "py_split (output_line ps p @ [CHR 0x0A]) = py_split (output_line ps p)"
    by (rule py_split_newline)
  also have "\<dots> = py_split (concat (map ?g column_fields) @ ?last)"
    by (simp only: output_line_def py_split_strip raw)
  also have "\<dots> = map (item p) column_fields @ split_run [] ?last"
    unfolding py_split_def
    by (rule split_run_columns [OF assms]) (simp add: py_isspace_def whitespace_chars_def)
  also have "split_run [] ?last = py_split (item p ''maintainers'')"
    using py_split_ljust [of "max_length ps ''maintainers''" "item p ''maintainers''"]
    by (simp add: py_split_def)
  finally show ?thesis .
qed

lemma COMMENT_BLOCK_lines:
  "COMMENT_BLOCK file = concat (map (\<lambda>l. l @ [CHR 0x0A]) (header_lines file))"
  by (simp add: COMMENT_BLOCK_def header_lines_def)

lemma lines_run_line:
  "CHR 0x0A \<notin> set l \<Longrightarrow> lines_run cur (l @ CHR 0x0A # rest) = (cur @ l @ [CHR 0x0A]) # lines_run [] rest"
  by (induction l arbitrary: cur) auto

lemma lines_run_concat:
  "\<forall>l \<in> set ls. CHR 0x0A \<notin> set l \<Longrightarrow>
   lines_run [] (concat (map (\<lambda>l. l @ [CHR 0x0A]) ls)) = map (\<lambda>l. l @ [CHR 0x0A]) ls"
proof (induction ls)
  case Nil
  then show ?case by simp
next
  case (Cons l ls)
  then have "CHR 0x0A \<notin> set l" by simp
  from lines_run_line [OF this, of "[]" "concat (map (\<lambda>l. l @ [CHR 0x0A]) ls)"] Cons show ?case
    by simp
qed

lemma universal_newlines_id: "CHR 0x0D \<notin> set s \<Longrightarrow> universal_newlines s = s"
  by (induction s rule: universal_newlines.induct) auto

lemma join_newline:
  "ls \<noteq> [] \<Longrightarrow> join [CHR 0x0A] ls @ [CHR 0x0A] = concat (map (\<lambda>l. l @ [CHR 0x0A]) ls)"
  by (induction "[CHR 0x0A]" ls rule: join.induct) auto

lemma written_text:
  "COMMENT_BLOCK file @ join [CHR 0x0A] ls @ [CHR 0x0A] =
   concat (map (\<lambda>l. l @ [CHR 0x0A]) (header_lines file @ (if ls = [] then [[]] else ls)))"
  using join_newline [of ls] by (simp add: COMMENT_BLOCK_lines)

lemma one_line_header: "one_line file \<Longrightarrow> \<forall>l \<in> set (header_lines file). one_line l"
  by (simp add: header_lines_def one_line_def)

lemma file_lines_written:
  assumes "one_line file" and "\<forall>l \<in> set ls. one_line l"
  shows "file_lines (COMMENT_BLOCK file @ join [CHR 0x0A] ls @ [CHR 0x0A]) =
         map (\<lambda>l. l @ [CHR 0x0A]) (header_lines file @ (if ls = [] then [[]] else ls))"
proof -
  let ?all = "header_lines file @ (if ls = [] then [[]] else ls)"
  have one: "\<forall>l \<in> set ?all. one_line l"
    using one_line_header [OF assms(1)] assms(2) by (auto simp: one_line_def)
  then have "CHR 0x0D \<notin> set (concat (map (\<lambda>l. l @ [CHR 0x0A]) ?all))"
    by (auto simp: one_line_def)
  then have "universal_newlines (concat (map (\<lambda>l. l @ [CHR 0x0A]) ?all)) = concat (map (\<lambda>l. l @ [CHR 0x0A]) ?all)"
    by (rule universal_newlines_id)
  moreover have "lines_run [] (concat (map (\<lambda>l. l @ [CHR 0x0A]) ?all)) = map (\<lambda>l. l @ [CHR 0x0A]) ?all"
    using one by (intro lines_run_concat) (simp add: one_line_def)
  ultimately show ?thesis
    unfolding file_lines_def written_text by simp
qed

lemma read_boards_lines_append:
  "read_boards_lines B (xs @ ys) boards =
     (case read_boards_lines B xs boards of Inl e \<Rightarrow> Inl e | Inr b1 \<Rightarrow> read_boards_lines B ys b1)"
  by (induction xs arbitrary: boards) (auto simp: Let_def split: list.splits)

lemma py_split_blank: "py_split [CHR 0x0A] = []"
  by (simp add: py_split_def py_isspace_def whitespace_chars_def)

lemma read_boards_header:
  "read_boards_lines B (map (\<lambda>l. l @ [CHR 0x0A]) (header_lines file)) boards = Inr boards"
  by (simp add: header_lines_def py_split_blank)

lemma read_boards_blank:
  "read_boards_lines B (map (\<lambda>l. l @ [CHR 0x0A]) [[]]) boards = Inr boards"
  by (simp add: py_split_blank)

lemma py_rstrip_Cons: "\<not> py_isspace a \<Longrightarrow> py_rstrip (a # s) = a # py_rstrip s"
  by (simp add: py_rstrip_def dropWhile_append3)

lemma writable_columns: "writable p \<Longrightarrow> \<forall>f \<in> set column_fields. plain (item p f)"
  by (simp add: writable_def list_all_iff)

lemma output_line_head:
  assumes "writable p"
  shows "\<exists>a s. output_line ps p = a # s \<and> a \<noteq> CHR ''#''"
proof -
  let ?v = "item p ''status''"
  from writable_columns [OF assms] have pv: "plain ?v"
    by (simp add: column_fields_def)
  then obtain a v' where v: "?v = a # v'" and a: "\<not> py_isspace a"
    by (cases ?v) (auto simp: plain_def)
  from assms v have hash: "a \<noteq> CHR ''#''"
    by (simp add: writable_def)
  have sp: "py_isspace CHR '' ''"
    by (simp add: py_isspace_def whitespace_chars_def)
  obtain rest where raw: "foldl (\<lambda>line field. line @ ''  '' @ ljust (max_length ps field) (item p field)) [] fields
      = ''  '' @ a # rest"
    by (simp add: foldl_append_concat fields_def ljust_def v)
  have "py_lstrip (''  '' @ a # rest) = a # rest"
    using sp a by (simp add: py_lstrip_def)
  then have "output_line ps p = py_rstrip (a # rest)"
    unfolding output_line_def raw py_strip_def by simp
  then have "output_line ps p = a # py_rstrip rest"
    using py_rstrip_Cons [OF a] by simp
  with hash show ?thesis by blast
qed

lemma read_boards_data_line:
  assumes "writable p"
  shows "read_boards_lines B ((output_line ps p @ [CHR 0x0A]) # rest) boards =
         read_boards_lines B rest
           (boards @ [B (map (\<lambda>field. if field = ''-'' then [] else field) (map (item p) column_fields))])"
proof -
  from output_line_head [OF assms, of ps] obtain a s where
    hd: "output_line ps p = a # s" "a \<noteq> CHR ''#''"
    by blast
  let ?cols = "map (item p) column_fields"
  let ?sub = "\<lambda>field. if field = ''-'' then [] else field"
  have sp: "py_split ((a # s) @ [CHR 0x0A]) = ?cols @ py_split (item p ''maintainers'')"
    using py_split_output_line [OF writable_columns [OF assms], of ps] hd(1) by simp
  have len: "length ?cols = 8"
    by (simp add: column_fields_def)
  have t: "take 8 (map ?sub (?cols @ py_split (item p ''maintainers''))) = map ?sub ?cols"
    using len by simp
  have ne: "?cols @ py_split (item p ''maintainers'') \<noteq> []"
    by (simp add: column_fields_def)
  have ge: "8 - length (map ?sub (?cols @ py_split (item p ''maintainers''))) = 0"
    using len by simp
  show ?thesis
    unfolding hd(1)
    apply (simp only: read_boards_lines.simps append_Cons list.case hd(2) if_False)
    apply (simp only: sp [simplified] Let_def ne if_False ge replicate_0 append_Nil2 t)
    using len apply (simp add: t)
    done
qed

lemma insort_key_map:
  "insort_key f (g x) (map g xs) = map g (insort_key (\<lambda>y. f (g y)) x xs)"
  by (induction xs) auto

lemma sort_key_map:
  "sort_key f (map g xs) = map g (sort_key (\<lambda>y. f (g y)) xs)"
  by (induction xs) (simp_all add: insort_key_map)

lemma set_py_strip: "set (py_strip s) \<subseteq> set s"
proof -
  have "set (py_rstrip (py_lstrip s)) \<subseteq> set (py_lstrip s)"
    unfolding py_rstrip_def by (auto dest: set_dropWhileD)
  moreover have "set (py_lstrip s) \<subseteq> set s"
    unfolding py_lstrip_def by (auto dest: set_dropWhileD)
  ultimately show ?thesis
    unfolding py_strip_def by blast
qed

lemma set_raw_line:
  "set (concat (map (\<lambda>f. ''  '' @ ljust (w f) (item p f)) fs)) \<subseteq>
   {CHR '' ''} \<union> (\<Union>f \<in> set fs. set (item p f))"
  by (induction fs) (auto simp: ljust_def)

lemma plain_one_line: "plain v \<Longrightarrow> one_line v"
  by (auto simp: plain_def one_line_def list_all_iff py_isspace_def whitespace_chars_def)

lemma one_line_output_line:
  assumes "writable p"
  shows "one_line (output_line ps p)"
proof -
  let ?g = "\<lambda>f. ''  '' @ ljust (max_length ps f) (item p f)"
  have items: "\<forall>f \<in> set fields. one_line (item p f)"
  proof
    fix f assume "f \<in> set fields"
    then have "f \<in> set column_fields \<or> f = ''maintainers''"
      by (auto simp: fields_split)
    then show "one_line (item p f)"
    proof
      assume "f \<in> set column_fields"
      with writable_columns [OF assms] show ?thesis
        by (simp add: plain_one_line)
    next
      assume "f = ''maintainers''"
      with assms show ?thesis
        by (simp add: writable_def)
    qed
  qed
  have raw: "output_line ps p = py_strip (concat (map ?g fields))"
    unfolding output_line_def by (simp only: foldl_append_concat [of ?g "[]" fields] append_Nil)
  have "set (output_line ps p) \<subseteq> set (concat (map ?g fields))"
    unfolding raw by (rule set_py_strip)
  also have "\<dots> \<subseteq> {CHR '' ''} \<union> (\<Union>f \<in> set fields. set (item p f))"
    by (rule set_raw_line)
  finally have sub: "set (output_line ps p) \<subseteq> {CHR '' ''} \<union> (\<Union>f \<in> set fields. set (item p f))" .
  show ?thesis
    unfolding one_line_def
  proof
    show "CHR 0x0A \<notin> set (output_line ps p)"
    proof
      assume "CHR 0x0A \<in> set (output_line ps p)"
      with sub obtain f where "f \<in> set fields" "CHR 0x0A \<in> set (item p f)"
        by auto
      with items show False by (auto simp: one_line_def)
    qed
    show "CHR 0x0D \<notin> set (output_line ps p)"
    proof
      assume "CHR 0x0D \<in> set (output_line ps p)"
      with sub obtain f where "f \<in> set fields" "CHR 0x0D \<in> set (item p f)"
        by auto
      with items show False by (auto simp: one_line_def)
    qed
  qed
qed

lemma read_boards_data_lines:
  assumes "\<forall>p \<in> set qs. writable p"
  shows "read_boards_lines B (map (\<lambda>l. l @ [CHR 0x0A]) (map (output_line ps) qs)) boards =
         Inr (boards @ map (\<lambda>p. B (map (\<lambda>field. if field = ''-'' then [] else field)
                                    (map (item p) column_fields))) qs)"
  using assms
proof (induction qs arbitrary: boards)
  case Nil
  then show ?case by simp
next
  case (Cons q qs)
  then have "writable q" by simp
  from read_boards_data_line [OF this, of B ps] Cons show ?case
    by simp
qed

lemma format_and_output_writable:
  assumes "\<forall>p \<in> set ps. writable p"
  shows "format_and_output file ps =
         Inr (COMMENT_BLOCK file @
              join [CHR 0x0A] (sort_key py_lower (map (output_line ps) ps)) @ [CHR 0x0A])"
  using assms by (auto simp: format_and_output_def writable_def list_all_iff)

text \<open>
  C6, as amended. Let every dict of the list be writable (its eight column values not
  empty and free of whitespace, its status not beginning with \<open>#\<close>, its maintainers
  without a line break) and let the path of the module hold no line break. Then
  reading the text that \<open>format_and_output\<close> writes gives exactly one board for each
  dict, in the order of the sorted lines, and the eight positional fields of each board
  are those of its dict with every \<open>-\<close> replaced by the empty string.
\<close>

theorem write_read_roundtrip:
  assumes "\<forall>p \<in> set ps. writable p"
    and "one_line file"
    and "open_read os fname = format_and_output file ps"
  shows "read_boards Board os fname [] =
         Inr (map (\<lambda>p. Board (map (\<lambda>field. if field = ''-'' then [] else field)
                                (map (item p) column_fields)))
               (sort_key (\<lambda>p. py_lower (output_line ps p)) ps))"
proof -
  let ?sorted = "sort_key (\<lambda>p. py_lower (output_line ps p)) ps"
  let ?ls = "map (output_line ps) ?sorted"
  have sorted: "sort_key py_lower (map (output_line ps) ps) = ?ls"
    by (rule sort_key_map)
  have ws: "\<forall>p \<in> set ?sorted. writable p"
    using assms(1) by simp
  then have one: "\<forall>l \<in> set ?ls. one_line l"
    by (simp add: one_line_output_line)
  have written: "open_read os fname = Inr (COMMENT_BLOCK file @ join [CHR 0x0A] ?ls @ [CHR 0x0A])"
    using assms(3) format_and_output_writable [OF assms(1), of "file"] sorted by simp
  have lines: "file_lines (COMMENT_BLOCK file @ join [CHR 0x0A] ?ls @ [CHR 0x0A]) =
      map (\<lambda>l. l @ [CHR 0x0A]) (header_lines file) @
      map (\<lambda>l. l @ [CHR 0x0A]) (if ?ls = [] then [[]] else ?ls)"
    using file_lines_written [OF assms(2) one] by simp
  have body: "read_boards_lines Board (map (\<lambda>l. l @ [CHR 0x0A]) (if ?ls = [] then [[]] else ?ls)) [] =
      Inr (map (\<lambda>p. Board (map (\<lambda>field. if field = ''-'' then [] else field)
                                (map (item p) column_fields))) ?sorted)"
  proof (cases "?ls = []")
    case True
    then have "?sorted = []" by simp
    with True show ?thesis
      using read_boards_blank [of Board "[]"] by simp
  next
    case False
    with read_boards_data_lines [OF ws, of Board ps "[]"] show ?thesis
      by simp
  qed
  show ?thesis
    unfolding read_boards_def written
    by (simp only: sum.case lines read_boards_lines_append read_boards_header body)
qed

theorem write_read_roundtrip_witness:
  "read_boards (\<lambda>fields. fields)
     (written_os (format_and_output ''tools/buildman/boards.py''
                    [example_params ''Active'' ''arm'' ''armv7'' ''snow'' ''snow'' ''A <a@b.c>'',
                     example_params ''-'' ''sandbox'' ''sandbox'' ''sandbox'' ''sandbox'' []])
                 (\<lambda>p. True))
     ''boards.cfg'' []
   = Inr [[[], ''sandbox'', ''sandbox'', [], [], ''sandbox'', ''sandbox'', ''sandbox''],
          [''Active'', ''arm'', ''armv7'', [], [], ''snow'', ''snow'', ''snow'']]"
proof -
  let ?p1 = "example_params ''Active'' ''arm'' ''armv7'' ''snow'' ''snow'' ''A <a@b.c>''"
  let ?p2 = "example_params ''-'' ''sandbox'' ''sandbox'' ''sandbox'' ''sandbox'' []"
  let ?ps = "[?p1, ?p2]"
  let ?os = "written_os (format_and_output ''tools/buildman/boards.py'' ?ps) (\<lambda>p. True)"
  have w1: "writable ?p1" by code_simp
  have w2: "writable ?p2" by code_simp
  have w: "\<forall>p \<in> set ?ps. writable p" using w1 w2 by simp
  have f: "one_line ''tools/buildman/boards.py''" by code_simp
  have rd: "open_read ?os ''boards.cfg'' = format_and_output ''tools/buildman/boards.py'' ?ps"
    by (simp add: written_os_def)
  have order: "\<not> py_lower (output_line ?ps ?p1) \<le> py_lower (output_line ?ps ?p2)"
    by code_simp
  have sorted: "sort_key (\<lambda>p. py_lower (output_line ?ps p)) ?ps = [?p2, ?p1]"
    using order by simp
  have c1: "map (\<lambda>field. if field = ''-'' then [] else field) (map (item ?p1) column_fields)
      = [''Active'', ''arm'', ''armv7'', [], [], ''snow'', ''snow'', ''snow'']"
    by code_simp
  have c2: "map (\<lambda>field. if field = ''-'' then [] else field) (map (item ?p2) column_fields)
      = [[], ''sandbox'', ''sandbox'', [], [], ''sandbox'', ''sandbox'', ''sandbox'']"
    by code_simp
  from write_read_roundtrip [OF w f rd, of "\<lambda>fields. fields"] show ?thesis
    unfolding sorted using c1 c2 by simp
qed

text \<open>
  C6 as the claim states it fails for a field that is empty: it holds no whitespace, is
  written as spaces only, and the fields after it come back one position to the left.
  A status that begins with \<open>#\<close> makes its line a comment, and no board comes back.
\<close>

theorem roundtrip_empty_field_counterexample:
  "list_all (\<lambda>f. list_all (\<lambda>c. \<not> py_isspace c) (item (example_params ''Active'' ''arm'' [] ''snow'' ''snow'' []) f)) fields
   \<and> read_boards (\<lambda>fields. fields)
     (written_os (format_and_output ''tools/buildman/boards.py''
                    [example_params ''Active'' ''arm'' [] ''snow'' ''snow'' []]) (\<lambda>p. True))
     ''boards.cfg'' []
   = Inr [[''Active'', ''arm'', [], [], ''snow'', ''snow'', ''snow'', []]]
   \<and> map (\<lambda>field. if field = ''-'' then [] else field)
         (map (item (example_params ''Active'' ''arm'' [] ''snow'' ''snow'' [])) column_fields)
     = [''Active'', ''arm'', [], [], [], ''snow'', ''snow'', ''snow'']
   \<and> read_boards (\<lambda>fields. fields)
     (written_os (format_and_output ''tools/buildman/boards.py''
                    [example_params ''Active'' ''arm'' [] ''snow'' ''snow'' []]) (\<lambda>p. True))
     ''boards.cfg'' []
   \<noteq> Inr (map (\<lambda>p. map (\<lambda>field. if field = ''-'' then [] else field) (map (item p) column_fields))
            [example_params ''Active'' ''arm'' [] ''snow'' ''snow'' []])
   \<and> read_boards (\<lambda>fields. fields)
     (written_os (format_and_output ''tools/buildman/boards.py''
                    [example_params ''#1'' ''arm'' ''armv7'' ''snow'' ''snow'' []]) (\<lambda>p. True))
     ''boards.cfg'' []
   = Inr []"
  by code_simp

section \<open>Properties of the staleness check\<close>







end
